theory Spec2Isabelle
  imports Main
begin

section \<open>Strings and lexical paths\<close>

text \<open>
  Go strings are byte sequences; they are modelled as \<open>string\<close> (a list of 8-bit
  characters).  The functions of this section embed the library functions the program
  calls from \<^verbatim>\<open>strings\<close> and \<^verbatim>\<open>path/filepath\<close> (Unix flavour: the
  separator is \<open>/\<close> and there are no volume names).
\<close>

definition sep :: char where
  "sep = CHR ''/''"

definition newline :: char where
  "newline = CHR 0x0A"

text \<open>\<^verbatim>\<open>strings.HasPrefix\<close>, \<^verbatim>\<open>strings.TrimPrefix\<close>, \<^verbatim>\<open>strings.HasSuffix\<close>,
  \<^verbatim>\<open>strings.TrimSuffix\<close>.\<close>

fun HasPrefix :: "string \<Rightarrow> string \<Rightarrow> bool" where
  "HasPrefix s [] = True"
| "HasPrefix [] (p # ps) = False"
| "HasPrefix (c # cs) (p # ps) = (c = p \<and> HasPrefix cs ps)"

definition TrimPrefix :: "string \<Rightarrow> string \<Rightarrow> string" where
  "TrimPrefix s p = (if HasPrefix s p then drop (length p) s else s)"

definition HasSuffix :: "string \<Rightarrow> string \<Rightarrow> bool" where
  "HasSuffix s p = HasPrefix (rev s) (rev p)"

definition TrimSuffix :: "string \<Rightarrow> string \<Rightarrow> string" where
  "TrimSuffix s p = (if HasSuffix s p then take (length s - length p) s else s)"

text \<open>\<^verbatim>\<open>strings.Split\<close> on a one-byte separator: the pieces between the separators,
  always at least one piece.\<close>

fun splitOn :: "char \<Rightarrow> string \<Rightarrow> string list" where
  "splitOn c [] = [[]]"
| "splitOn c (x # xs) =
     (if x = c then [] # splitOn c xs
      else (case splitOn c xs of
              [] \<Rightarrow> [[x]]
            | y # ys \<Rightarrow> (x # y) # ys))"

text \<open>\<^verbatim>\<open>strings.Join\<close> of path elements with the separator.\<close>

fun joinWith :: "char \<Rightarrow> string list \<Rightarrow> string" where
  "joinWith c [] = []"
| "joinWith c [x] = x"
| "joinWith c (x # y # ys) = x @ c # joinWith c (y # ys)"

text \<open>
  \<^verbatim>\<open>filepath.Clean\<close>.  The library works on bytes with a write buffer; the model
  works on the path elements, which is what the library's documentation specifies:
  empty elements and \<open>.\<close> are dropped, an inner \<open>..\<close> removes the element before
  it, \<open>..\<close> at the start of a rooted path is dropped, \<open>..\<close> at the start of a
  relative path stays, and the empty result is \<open>.\<close>.  The stack holds the elements
  written so far, last one first.
\<close>

fun cleanStep :: "bool \<Rightarrow> string list \<Rightarrow> string \<Rightarrow> string list" where
  "cleanStep rooted stack e =
     (if e = [] \<or> e = ''.'' then stack
      else if e = ''..'' then
        (case stack of
           [] \<Rightarrow> (if rooted then [] else [''..''])
         | e1 # rest \<Rightarrow> (if e1 = ''..'' then ''..'' # stack else rest))
      else e # stack)"

definition Clean :: "string \<Rightarrow> string" where
  "Clean path =
     (let rooted = (case path of [] \<Rightarrow> False | c # _ \<Rightarrow> c = sep);
          stack = foldl (cleanStep rooted) [] (splitOn sep path)
      in if rooted then sep # joinWith sep (rev stack)
         else if stack = [] then ''.''
         else joinWith sep (rev stack))"

text \<open>\<^verbatim>\<open>filepath.Join\<close>: the elements from the first non-empty one on, joined with the
  separator and cleaned; the empty string when every element is empty.\<close>

fun Join :: "string list \<Rightarrow> string" where
  "Join [] = []"
| "Join (e # es) = (if e = [] then Join es else Clean (joinWith sep (e # es)))"

text \<open>\<^verbatim>\<open>filepath.Base\<close>: the last element of the path, after removing trailing
  separators; \<open>.\<close> for the empty path and \<open>/\<close> for a path of separators only.\<close>

definition stripTrailingSeps :: "string \<Rightarrow> string" where
  "stripTrailingSeps path = rev (dropWhile (\<lambda>c. c = sep) (rev path))"

definition Base :: "string \<Rightarrow> string" where
  "Base path =
     (if path = [] then ''.''
      else let p = stripTrailingSeps path;
               b = rev (takeWhile (\<lambda>c. c \<noteq> sep) (rev p))
           in if p = [] then [sep] else b)"

text \<open>\<^verbatim>\<open>filepath.Dir\<close>: everything up to and including the last separator, cleaned.\<close>

definition Dir :: "string \<Rightarrow> string" where
  "Dir path = Clean (rev (dropWhile (\<lambda>c. c \<noteq> sep) (rev path)))"

section \<open>The pattern githubRepoRe\<close>

text \<open>
  \<^verbatim>\<open>githubRepoRe = regexp.MustCompile(`^github.com/(.+?)/(.+?)/`)\<close>

  The pattern is anchored at the start of the text.  The dot is not escaped: it matches
  one code point other than a line feed.  Go decodes the text as UTF-8 and takes a byte
  that starts no valid encoding as a code point of width one; \<open>runeWidth\<close> is the
  number of bytes of the first code point.
\<close>

definition contByte :: "nat \<Rightarrow> nat \<Rightarrow> char \<Rightarrow> bool" where
  "contByte lo hi c = (lo \<le> (of_char c :: nat) \<and> (of_char c :: nat) \<le> hi)"

fun runeWidth :: "string \<Rightarrow> nat" where
  "runeWidth [] = 0"
| "runeWidth (c # cs) =
     (let b = (of_char c :: nat);
          sz = (if 0xC2 \<le> b \<and> b \<le> 0xDF then 2
                else if 0xE0 \<le> b \<and> b \<le> 0xEF then 3
                else if 0xF0 \<le> b \<and> b \<le> 0xF4 then 4 else 1);
          lo = (if b = 0xE0 then 0xA0 else if b = 0xF0 then 0x90 else 0x80);
          hi = (if b = 0xED then 0x9F else if b = 0xF4 then 0x8F else 0xBF)
      in if sz = 1 then 1
         else if length cs < sz - 1 then 1
         else if \<not> contByte lo hi (cs ! 0) then 1
         else if sz = 2 then 2
         else if \<not> contByte 0x80 0xBF (cs ! 1) then 1
         else if sz = 3 then 3
         else if \<not> contByte 0x80 0xBF (cs ! 2) then 1
         else 4)"

text \<open>The literal parts of the pattern: the rest of the text after the literal, if the
  text starts with it.\<close>

definition matchLiteral :: "string \<Rightarrow> string \<Rightarrow> string option" where
  "matchLiteral p s = (if HasPrefix s p then Some (drop (length p) s) else None)"

text \<open>The unescaped dot: one code point that is not a line feed.\<close>

definition matchAnyNotNL :: "string \<Rightarrow> string option" where
  "matchAnyNotNL s =
     (case s of
        [] \<Rightarrow> None
      | c # _ \<Rightarrow> if c = newline then None else Some (drop (runeWidth s) s))"

text \<open>
  \<^verbatim>\<open>(.+?)/\<close> followed by the rest \<open>k\<close> of the pattern.  The group is lazy: the
  engine returns the match a backtracking search finds first, trying the shortest group
  first.  \<open>lazyMore k s\<close> is entered once the group holds at least one character: at
  a separator it tries to close the group and match \<open>k\<close>, and takes the separator into
  the group when that fails; a line feed ends the search.  (A separator and a line feed
  are never inside the encoding of another code point, so working on bytes here gives
  the same matches as working on code points.)
\<close>

fun lazyMore :: "(string \<Rightarrow> string option) \<Rightarrow> string \<Rightarrow> string option" where
  "lazyMore k [] = None"
| "lazyMore k (c # cs) =
     (if c = sep then (case k cs of Some r \<Rightarrow> Some r | None \<Rightarrow> lazyMore k cs)
      else if c = newline then None
      else lazyMore k cs)"

fun lazyGroupSep :: "(string \<Rightarrow> string option) \<Rightarrow> string \<Rightarrow> string option" where
  "lazyGroupSep k [] = None"
| "lazyGroupSep k (c # cs) = (if c = newline then None else lazyMore k cs)"

text \<open>The whole pattern at the start of the text: the text after the match, or
  \<open>None\<close> when the text does not match.\<close>

definition githubRepoRe :: "string \<Rightarrow> string option" where
  "githubRepoRe s =
     (case matchLiteral ''github'' s of
        None \<Rightarrow> None
      | Some r1 \<Rightarrow>
          (case matchAnyNotNL r1 of
             None \<Rightarrow> None
           | Some r2 \<Rightarrow>
               (case matchLiteral ''com/'' r2 of
                  None \<Rightarrow> None
                | Some r3 \<Rightarrow> lazyGroupSep (lazyGroupSep Some) r3)))"

text \<open>
  \<^verbatim>\<open>githubRepoRe.ReplaceAllLiteralString(s, "")\<close>: every match is replaced by the
  empty string.  The pattern is anchored and a match is never empty, so there is at most
  one match, at the start.
\<close>

definition ReplaceAllLiteralString_empty :: "string \<Rightarrow> string" where
  "ReplaceAllLiteralString_empty s = (case githubRepoRe s of None \<Rightarrow> s | Some r \<Rightarrow> r)"

section \<open>Descriptor files as the parser returns them\<close>

text \<open>
  The program reads a descriptor through \<^verbatim>\<open>github.com/bazelbuild/buildtools/build\<close>.
  Of an attribute value it only asks whether it is a string literal or a list literal
  (and the same of the elements of a list literal), so every other expression (a call
  such as \<^verbatim>\<open>glob([...])\<close>, an identifier, ...) is one constructor.  A rule is a
  top-level call: \<open>ruleKind\<close> is what \<^verbatim>\<open>Kind()\<close> returns, \<open>ruleName\<close> what
  \<^verbatim>\<open>Name()\<close> returns (the empty string when the rule has no name),
  \<open>ruleAttrs\<close> the keyword arguments in the order written.
\<close>

datatype expr = StringExpr string | ListExpr "expr list" | OtherExpr

record rule =
  ruleKind :: string
  ruleName :: string
  ruleAttrs :: "(string \<times> expr) list"

text \<open>\<^verbatim>\<open>File.Rules(kind)\<close>: the rules of that kind in file order, all rules for the
  empty kind.\<close>

definition Rules :: "rule list \<Rightarrow> string \<Rightarrow> rule list" where
  "Rules buildFile k = filter (\<lambda>r. k = [] \<or> ruleKind r = k) buildFile"

text \<open>\<^verbatim>\<open>Rule.Attr(key)\<close>: the first argument with that keyword.\<close>

definition Attr :: "rule \<Rightarrow> string \<Rightarrow> expr option" where
  "Attr r key = map_of (ruleAttrs r) key"

text \<open>\<^verbatim>\<open>Rule.AttrString(key)\<close>: the value of a string literal, the empty string for a
  missing attribute and for any other expression.\<close>

definition AttrString :: "rule \<Rightarrow> string \<Rightarrow> string" where
  "AttrString r key = (case Attr r key of Some (StringExpr s) \<Rightarrow> s | _ \<Rightarrow> [])"

text \<open>
  \<^verbatim>\<open>build.Strings(expr)\<close>, on the elements of a list literal: the values of the
  elements when every one of them is a string literal, a non-nil slice even when the list
  is empty; nil (\<open>None\<close>) as soon as one element is not a string literal.
\<close>

fun stringsOf :: "expr list \<Rightarrow> string list option" where
  "stringsOf [] = Some []"
| "stringsOf (StringExpr s # es) =
     (case stringsOf es of None \<Rightarrow> None | Some all \<Rightarrow> Some (s # all))"
| "stringsOf (e # es) = None"

text \<open>\<^verbatim>\<open>Rule.AttrStrings(key)\<close> is \<^verbatim>\<open>Strings(r.Attr(key))\<close>: nil for a missing
  attribute, for an expression that is not a list literal, and for a list literal with
  an element that is not a string literal.\<close>

definition AttrStrings :: "rule \<Rightarrow> string \<Rightarrow> string list option" where
  "AttrStrings r key = (case Attr r key of Some (ListExpr es) \<Rightarrow> stringsOf es | _ \<Rightarrow> None)"

section \<open>The file system\<close>

text \<open>
  The file system is a map from path texts to nodes: a path names a node by the text the
  program passes (all of them results of \<open>Join\<close>, hence cleaned); directories on the
  way are not resolved.  The content of a regular file is kept as what
  \<^verbatim>\<open>build.ParseBuild\<close> makes of its bytes: the rules of the file, or \<open>None\<close> for
  bytes the parser rejects.
\<close>

datatype node = RegularFile "rule list option" | Directory | SymbolicLink string

type_synonym filesystem = "string \<rightharpoonup> node"

text \<open>\<^verbatim>\<open>os.Lstat\<close> does not follow a link at the path; \<open>None\<close> is its error.\<close>

definition Lstat :: "filesystem \<Rightarrow> string \<Rightarrow> node option" where
  "Lstat fs path = fs path"

text \<open>\<^verbatim>\<open>os.Stat\<close> follows links at the path (a relative target is taken from the
  link's directory), at most 40 of them as Linux does; \<open>None\<close> is its error.\<close>

fun followLinks :: "nat \<Rightarrow> filesystem \<Rightarrow> string \<Rightarrow> node option" where
  "followLinks 0 fs path =
     (case fs path of Some (SymbolicLink t) \<Rightarrow> None | other \<Rightarrow> other)"
| "followLinks (Suc n) fs path =
     (case fs path of
        Some (SymbolicLink t) \<Rightarrow>
          followLinks n fs (if HasPrefix t [sep] then Clean t else Join [Dir path, t])
      | other \<Rightarrow> other)"

definition Stat :: "filesystem \<Rightarrow> string \<Rightarrow> node option" where
  "Stat fs path = followLinks 40 fs path"

text \<open>\<^verbatim>\<open>os.Readlink\<close> and \<^verbatim>\<open>ioutil.ReadFile\<close>.\<close>

definition Readlink :: "filesystem \<Rightarrow> string \<Rightarrow> string option" where
  "Readlink fs path = (case fs path of Some (SymbolicLink t) \<Rightarrow> Some t | _ \<Rightarrow> None)"

definition ReadFile :: "filesystem \<Rightarrow> string \<Rightarrow> rule list option option" where
  "ReadFile fs path = (case Stat fs path of Some (RegularFile c) \<Rightarrow> Some c | _ \<Rightarrow> None)"

text \<open>A new entry needs its directory; the root and the current directory always exist.\<close>

definition parentIsDir :: "filesystem \<Rightarrow> string \<Rightarrow> bool" where
  "parentIsDir fs path =
     (Dir path = [sep] \<or> Dir path = ''.'' \<or> Stat fs (Dir path) = Some Directory)"

text \<open>\<^verbatim>\<open>os.Symlink(target, link)\<close> and \<^verbatim>\<open>os.Mkdir(path)\<close> fail (\<open>None\<close>) when
  the path is empty, when something is at the path already and when the directory of
  the path is missing.\<close>

definition Symlink :: "string \<Rightarrow> string \<Rightarrow> filesystem \<Rightarrow> filesystem option" where
  "Symlink target link fs =
     (if link = [] \<or> fs link \<noteq> None \<or> \<not> parentIsDir fs link then None
      else Some (fs(link \<mapsto> SymbolicLink target)))"

definition Mkdir :: "string \<Rightarrow> filesystem \<Rightarrow> filesystem option" where
  "Mkdir path fs =
     (if path = [] \<or> fs path \<noteq> None \<or> \<not> parentIsDir fs path then None
      else Some (fs(path \<mapsto> Directory)))"

text \<open>
  \<^verbatim>\<open>os.MkdirAll(path, 0700)\<close>: nothing to do for a directory, an error for anything
  else at the path; otherwise the parent (the path up to its last separator) is made
  first, then the directory itself.  The result is whether it succeeded, and the file
  system it leaves.
\<close>

definition parentEnd :: "string \<Rightarrow> nat" where
  "parentEnd path = length (dropWhile (\<lambda>c. c \<noteq> sep) (rev (stripTrailingSeps path)))"

function MkdirAll :: "string \<Rightarrow> filesystem \<Rightarrow> bool \<times> filesystem" where
  "MkdirAll path fs =
     (case Stat fs path of
        Some Directory \<Rightarrow> (True, fs)
      | Some _ \<Rightarrow> (False, fs)
      | None \<Rightarrow>
          (case (if 1 < parentEnd path then MkdirAll (take (parentEnd path - 1) path) fs
                 else (True, fs)) of
             (False, fs1) \<Rightarrow> (False, fs1)
           | (True, fs1) \<Rightarrow>
               (case Mkdir path fs1 of
                  Some fs2 \<Rightarrow> (True, fs2)
                | None \<Rightarrow> (Lstat fs1 path = Some Directory, fs1))))"
  by pat_completeness auto

termination MkdirAll
proof (relation "measure (\<lambda>(p, fs). length p)")
  show "wf (measure (\<lambda>(p, fs). length p))" by simp
next
  fix path :: string and fs :: filesystem
  assume "1 < parentEnd path"
  moreover have "parentEnd path \<le> length path"
    unfolding parentEnd_def stripTrailingSeps_def
    by (metis length_dropWhile_le length_rev le_trans rev_rev_ident)
  ultimately show "((take (parentEnd path - 1) path, fs), path, fs)
      \<in> measure (\<lambda>(p, fs). length p)"
    by simp
qed

section \<open>The program\<close>

text \<open>
  The errors of the program are formatted strings; each constructor stands for one
  \<^verbatim>\<open>fmt.Errorf\<close> of the source and carries the values formatted into it.
\<close>

datatype error =
    CouldNotReadBuildFile string
  | CouldNotParseBuildFile string
  | ProtoRuleWithoutSrcs string string
  | SrcInMultipleProtoRules string string
  | MissingProtoAttribute string string
  | UnsupportedProtoReference string string string
  | MissingImportpathAttribute string string
  | NoWorkspaceRelativePath string
  | CouldNotMakeDirectory string
  | UnknownProtoRuleKind string
  | NoRuleForProto string
  | NotASymlink string
  | CouldNotReadSymlink string
  | PointsElsewhere string
  | CouldNotCreateSymlink string string
  | NotABazelWorkspace string
  | WalkError string
  | BuildFileError string error

definition goProtoLibrary :: string where
  "goProtoLibrary = ''go_proto_library''"

definition tsProtoLibrary :: string where
  "tsProtoLibrary = ''ts_proto_library''"

record languageProtoRule =
  kind :: string
  name :: string
  protoRuleName :: string
  importPath :: string

text \<open>
  \<^verbatim>\<open>languageProtoRule.getLinkAndTarget\<close>.  It makes the link's directory for a
  \<^verbatim>\<open>go_proto_library\<close> rule, so it takes the file system and returns it.  (The loop
  body of \<^verbatim>\<open>processWorkspace\<close> in \<^verbatim>\<open>main.go\<close> computes the same two paths
  for its only rule kind, with the same statements.)
\<close>

definition getLinkAndTarget ::
  "languageProtoRule \<Rightarrow> string \<Rightarrow> string \<Rightarrow> filesystem
     \<Rightarrow> (error + string \<times> string) \<times> filesystem" where
  "getLinkAndTarget r workspaceRoot protoFile fs =
     (let protoFileRelPath = TrimPrefix protoFile workspaceRoot in
      if kind r = goProtoLibrary then
        (let workspaceRelativePath = ReplaceAllLiteralString_empty (importPath r) in
         if workspaceRelativePath = importPath r
         then (Inl (NoWorkspaceRelativePath (importPath r)), fs)
         else
           (let protoFileBasename = Base protoFile;
                linkSrcDir = Join [workspaceRoot, workspaceRelativePath]
            in case MkdirAll linkSrcDir fs of
                 (False, fs1) \<Rightarrow> (Inl (CouldNotMakeDirectory linkSrcDir), fs1)
               | (True, fs1) \<Rightarrow>
                   (let linkSrcFile = TrimSuffix protoFileBasename ''.proto'' @ ''.pb.go'';
                        linkSrc = Join [linkSrcDir, linkSrcFile];
                        genProtoAbsPath =
                          Join [workspaceRoot, ''bazel-bin'', Dir protoFileRelPath,
                                name r @ ''_'', importPath r, linkSrcFile]
                    in (Inr (linkSrc, genProtoAbsPath), fs1))))
      else if kind r = tsProtoLibrary then
        (let linkSrc = Join [workspaceRoot, Dir protoFileRelPath, name r @ ''.d.ts''];
             genProtoAbsPath =
               Join [workspaceRoot, ''bazel-bin'', Dir protoFileRelPath, name r @ ''.d.ts'']
         in (Inr (linkSrc, genProtoAbsPath), fs))
      else (Inl (UnknownProtoRuleKind (kind r)), fs))"

record parsedBuildFile =
  protoFileToRule :: "string \<rightharpoonup> string"
  protoRuleToLangProtoRules :: "string \<rightharpoonup> languageProtoRule list"

text \<open>\<^verbatim>\<open>parsedBuildFile.getLangProtoRulesForProto\<close>; \<open>None\<close> is its
  \<^verbatim>\<open>(nil, false)\<close>.\<close>

definition getLangProtoRulesForProto ::
  "parsedBuildFile \<Rightarrow> string \<Rightarrow> languageProtoRule list option" where
  "getLangProtoRulesForProto b protoFile =
     (let basename = Base protoFile in
      case protoFileToRule b basename of
        None \<Rightarrow> None
      | Some protoRule \<Rightarrow>
          (case protoRuleToLangProtoRules b protoRule of
             None \<Rightarrow> None
           | Some langRules \<Rightarrow> Some langRules))"

text \<open>Reading a Go map of strings at a key that may be missing gives the empty string
  for a missing key.\<close>

definition mapIndex :: "(string \<rightharpoonup> string) \<Rightarrow> string \<Rightarrow> string" where
  "mapIndex m k = (case m k of None \<Rightarrow> [] | Some v \<Rightarrow> v)"

text \<open>The inner loop of \<^verbatim>\<open>parseBuildFile\<close> over the sources of one
  \<^verbatim>\<open>proto_library\<close> rule.\<close>

fun registerSrcs ::
  "string \<Rightarrow> string \<Rightarrow> string list \<Rightarrow> (string \<rightharpoonup> string)
     \<Rightarrow> error + (string \<rightharpoonup> string)" where
  "registerSrcs buildFilePath ruleNm [] m = Inr m"
| "registerSrcs buildFilePath ruleNm (src # srcs) m =
     (if mapIndex m src \<noteq> []
      then Inl (SrcInMultipleProtoRules buildFilePath src)
      else registerSrcs buildFilePath ruleNm srcs (m(src \<mapsto> ruleNm)))"

text \<open>The loop over the \<^verbatim>\<open>proto_library\<close> rules (\<^verbatim>\<open>parseBuildFile\<close> in
  \<^verbatim>\<open>main.go\<close> has the same two loops, statement for statement).\<close>

fun registerProtoRules ::
  "string \<Rightarrow> rule list \<Rightarrow> (string \<rightharpoonup> string) \<Rightarrow> error + (string \<rightharpoonup> string)" where
  "registerProtoRules buildFilePath [] m = Inr m"
| "registerProtoRules buildFilePath (r # rs) m =
     (case AttrStrings r ''srcs'' of
        None \<Rightarrow> Inl (ProtoRuleWithoutSrcs buildFilePath (ruleName r))
      | Some srcs \<Rightarrow>
          (case registerSrcs buildFilePath (ruleName r) srcs m of
             Inl e \<Rightarrow> Inl e
           | Inr m1 \<Rightarrow> registerProtoRules buildFilePath rs m1))"

text \<open>The loop over all rules, which keeps the \<^verbatim>\<open>go_proto_library\<close> and
  \<^verbatim>\<open>ts_proto_library\<close> rules.\<close>

fun registerLangRules ::
  "string \<Rightarrow> rule list \<Rightarrow> (string \<rightharpoonup> languageProtoRule list)
     \<Rightarrow> error + (string \<rightharpoonup> languageProtoRule list)" where
  "registerLangRules buildFilePath [] m = Inr m"
| "registerLangRules buildFilePath (r # rs) m =
     (if ruleKind r \<noteq> goProtoLibrary \<and> ruleKind r \<noteq> tsProtoLibrary
      then registerLangRules buildFilePath rs m
      else
        (let protoRule = AttrString r ''proto'' in
         if protoRule = [] then Inl (MissingProtoAttribute buildFilePath (ruleName r))
         else if \<not> HasPrefix protoRule '':''
         then Inl (UnsupportedProtoReference buildFilePath (ruleName r) protoRule)
         else
           (let importPath0 =
                  (if ruleKind r = goProtoLibrary then AttrString r ''importpath'' else [])
            in if ruleKind r = goProtoLibrary \<and> importPath0 = []
               then Inl (MissingImportpathAttribute buildFilePath (ruleName r))
               else
                 (let protoRuleName0 = drop 1 protoRule;
                      langProtoRule =
                        \<lparr>kind = ruleKind r, name = ruleName r,
                         protoRuleName = drop 1 protoRule, importPath = importPath0\<rparr>
                  in registerLangRules buildFilePath rs
                       (m(protoRuleName0 \<mapsto>
                            (case m protoRuleName0 of None \<Rightarrow> [] | Some l \<Rightarrow> l)
                              @ [langProtoRule]))))))"

text \<open>\<^verbatim>\<open>parseBuildFile\<close>.  The parser is given the bytes of the file; the model
  keeps a file's content as the parser's result (see \<open>node\<close>).\<close>

definition parseBuildFile :: "filesystem \<Rightarrow> string \<Rightarrow> error + parsedBuildFile" where
  "parseBuildFile fs buildFilePath =
     (case ReadFile fs buildFilePath of
        None \<Rightarrow> Inl (CouldNotReadBuildFile buildFilePath)
      | Some buildFileContents \<Rightarrow>
          (case buildFileContents of
             None \<Rightarrow> Inl (CouldNotParseBuildFile buildFilePath)
           | Some buildFile \<Rightarrow>
               (case registerProtoRules buildFilePath (Rules buildFile ''proto_library'')
                       Map.empty of
                  Inl e \<Rightarrow> Inl e
                | Inr m1 \<Rightarrow>
                    (case registerLangRules buildFilePath (Rules buildFile []) Map.empty of
                       Inl e \<Rightarrow> Inl e
                     | Inr m2 \<Rightarrow>
                         Inr \<lparr>protoFileToRule = m1, protoRuleToLangProtoRules = m2\<rparr>))))"

record result =
  created :: nat
  upToDate :: nat

text \<open>
  The second half of the loop body of \<^verbatim>\<open>processProtoFile\<close> (the same statements
  end the loop body of \<^verbatim>\<open>processWorkspace\<close> in \<^verbatim>\<open>main.go\<close>): what is done
  with one link and its target.  The counters are Go \<^verbatim>\<open>int\<close>s that only count up
  from zero, one step per link; they are natural numbers here.  The result is the error
  if any, the counters and the file system.
\<close>

definition reconcile ::
  "string \<Rightarrow> string \<Rightarrow> result \<times> filesystem \<Rightarrow> error option \<times> result \<times> filesystem" where
  "reconcile link linkTarget st =
     (case st of (res, fs) \<Rightarrow>
        (case Lstat fs link of
           Some s \<Rightarrow>
             (if (case s of SymbolicLink _ \<Rightarrow> False | _ \<Rightarrow> True)
              then (Some (NotASymlink link), res, fs)
              else
                (case Readlink fs link of
                   None \<Rightarrow> (Some (CouldNotReadSymlink link), res, fs)
                 | Some existingTarget \<Rightarrow>
                     (if existingTarget \<noteq> linkTarget
                      then (Some (PointsElsewhere link), res, fs)
                      else (None, res\<lparr>upToDate := upToDate res + 1\<rparr>, fs))))
         | None \<Rightarrow>
             (case Symlink linkTarget link fs of
                None \<Rightarrow> (Some (CouldNotCreateSymlink linkTarget link), res, fs)
              | Some fs1 \<Rightarrow> (None, res\<lparr>created := created res + 1\<rparr>, fs1))))"

text \<open>The loop of \<^verbatim>\<open>processProtoFile\<close> over the rules found for the file.\<close>

fun processLangRules ::
  "string \<Rightarrow> string \<Rightarrow> languageProtoRule list \<Rightarrow> result \<times> filesystem
     \<Rightarrow> error option \<times> result \<times> filesystem" where
  "processLangRules workspaceRoot protoFile [] st = (None, st)"
| "processLangRules workspaceRoot protoFile (langRule # langRules) st =
     (case st of (res, fs) \<Rightarrow>
        (case getLinkAndTarget langRule workspaceRoot protoFile fs of
           (Inl e, fs1) \<Rightarrow> (Some e, res, fs1)
         | (Inr (link, linkTarget), fs1) \<Rightarrow>
             (case reconcile link linkTarget (res, fs1) of
                (Some e, st2) \<Rightarrow> (Some e, st2)
              | (None, st2) \<Rightarrow> processLangRules workspaceRoot protoFile langRules st2)))"

definition processProtoFile ::
  "string \<Rightarrow> string \<Rightarrow> parsedBuildFile \<Rightarrow> result \<times> filesystem
     \<Rightarrow> error option \<times> result \<times> filesystem" where
  "processProtoFile workspaceRoot protoFile buildFile st =
     (case getLangProtoRulesForProto buildFile protoFile of
        None \<Rightarrow> (Some (NoRuleForProto protoFile), st)
      | Some langRules \<Rightarrow> processLangRules workspaceRoot protoFile langRules st)"

text \<open>
  The callback \<^verbatim>\<open>processWorkspace\<close> gives to \<^verbatim>\<open>filepath.Walk\<close>.  The walk
  itself is the library's: it is represented by the calls it makes, each a path and
  whether the walk had an error for it.  The callback's first error ends the walk.
\<close>

fun collectProtoFiles :: "(string \<times> bool) list \<Rightarrow> string list \<Rightarrow> error + string list" where
  "collectProtoFiles [] protoFiles = Inr protoFiles"
| "collectProtoFiles ((path, err) # visits) protoFiles =
     (if \<not> HasSuffix path ''.proto'' then collectProtoFiles visits protoFiles
      else if err then Inl (WalkError path)
      else collectProtoFiles visits (protoFiles @ [path]))"

text \<open>The loop of \<^verbatim>\<open>processWorkspace\<close> over the files found, with the map of the
  descriptors parsed so far.\<close>

fun processProtoFiles ::
  "string \<Rightarrow> string list \<Rightarrow> (string \<rightharpoonup> parsedBuildFile) \<Rightarrow> result \<times> filesystem
     \<Rightarrow> error option \<times> result \<times> filesystem" where
  "processProtoFiles workspaceRoot [] buildFiles st = (None, st)"
| "processProtoFiles workspaceRoot (protoFile # protoFiles) buildFiles st =
     (case st of (res, fs) \<Rightarrow>
        (let buildFilePath = Join [Dir protoFile, ''BUILD''] in
         if Stat fs buildFilePath = None
         then processProtoFiles workspaceRoot protoFiles buildFiles st
         else
           (case (case buildFiles buildFilePath of
                    Some b \<Rightarrow> Inr (b, buildFiles)
                  | None \<Rightarrow>
                      (case parseBuildFile fs buildFilePath of
                         Inl e \<Rightarrow> Inl (BuildFileError buildFilePath e)
                       | Inr b \<Rightarrow> Inr (b, buildFiles(buildFilePath \<mapsto> b)))) of
              Inl e \<Rightarrow> (Some e, st)
            | Inr (buildFile, buildFiles1) \<Rightarrow>
                (case processProtoFile workspaceRoot protoFile buildFile st of
                   (Some e, st1) \<Rightarrow> (Some e, st1)
                 | (None, st1) \<Rightarrow>
                     processProtoFiles workspaceRoot protoFiles buildFiles1 st1))))"

text \<open>
  \<^verbatim>\<open>processWorkspace\<close>.  \<open>walk\<close> stands for \<^verbatim>\<open>filepath.Walk\<close>: the calls it
  makes to the callback for a root in a file system.  On an error the program returns no
  counters; the file system stays as the failed pass left it.
\<close>

definition processWorkspace ::
  "(filesystem \<Rightarrow> string \<Rightarrow> (string \<times> bool) list) \<Rightarrow> string \<Rightarrow> filesystem
     \<Rightarrow> (error + result) \<times> filesystem" where
  "processWorkspace walk workspaceRoot fs =
     (if Stat fs (Join [workspaceRoot, ''WORKSPACE'']) = None
      then (Inl (NotABazelWorkspace workspaceRoot), fs)
      else
        (case collectProtoFiles (walk fs workspaceRoot) [] of
           Inl e \<Rightarrow> (Inl e, fs)
         | Inr protoFiles \<Rightarrow>
             (case processProtoFiles workspaceRoot protoFiles Map.empty
                     (\<lparr>created = 0, upToDate = 0\<rparr>, fs) of
                (Some e, res, fs1) \<Rightarrow> (Inl e, fs1)
              | (None, res, fs1) \<Rightarrow> (Inr res, fs1))))"

section \<open>The paths and links of a pass\<close>

text \<open>
  The statements below need names for what the program computes on the way.  These
  definitions repeat expressions of \<^verbatim>\<open>getLinkAndTarget\<close>: the directory it makes
  for a \<^verbatim>\<open>go_proto_library\<close> rule, the name of the generated Go file, and the link
  and the target it returns when it succeeds.
\<close>

definition goLinkDir :: "languageProtoRule \<Rightarrow> string \<Rightarrow> string" where
  "goLinkDir r workspaceRoot =
     Join [workspaceRoot, ReplaceAllLiteralString_empty (importPath r)]"

definition goLinkFile :: "string \<Rightarrow> string" where
  "goLinkFile protoFile = TrimSuffix (Base protoFile) ''.proto'' @ ''.pb.go''"

definition resolvedLink :: "languageProtoRule \<Rightarrow> string \<Rightarrow> string \<Rightarrow> string" where
  "resolvedLink r workspaceRoot protoFile =
     (if kind r = goProtoLibrary
      then Join [goLinkDir r workspaceRoot, goLinkFile protoFile]
      else Join [workspaceRoot, Dir (TrimPrefix protoFile workspaceRoot), name r @ ''.d.ts''])"

definition resolvedTarget :: "languageProtoRule \<Rightarrow> string \<Rightarrow> string \<Rightarrow> string" where
  "resolvedTarget r workspaceRoot protoFile =
     (if kind r = goProtoLibrary
      then Join [workspaceRoot, ''bazel-bin'', Dir (TrimPrefix protoFile workspaceRoot),
                 name r @ ''_'', importPath r, goLinkFile protoFile]
      else Join [workspaceRoot, ''bazel-bin'', Dir (TrimPrefix protoFile workspaceRoot),
                 name r @ ''.d.ts''])"

text \<open>
  The links a pass over the given source files computes in a file system, in the order
  of the pass: for every file whose directory has a descriptor, the links of the rules
  the descriptor gives for the file.
\<close>

definition linksOfFile :: "filesystem \<Rightarrow> string \<Rightarrow> string \<Rightarrow> string list" where
  "linksOfFile fs workspaceRoot protoFile =
     (let buildFilePath = Join [Dir protoFile, ''BUILD''] in
      if Stat fs buildFilePath = None then []
      else
        (case parseBuildFile fs buildFilePath of
           Inl e \<Rightarrow> []
         | Inr b \<Rightarrow>
             (case getLangProtoRulesForProto b protoFile of
                None \<Rightarrow> []
              | Some langRules \<Rightarrow>
                  map (\<lambda>r. resolvedLink r workspaceRoot protoFile) langRules)))"

definition computedLinks :: "filesystem \<Rightarrow> string \<Rightarrow> string list \<Rightarrow> string list" where
  "computedLinks fs workspaceRoot protoFiles =
     concat (map (linksOfFile fs workspaceRoot) protoFiles)"

section \<open>Example inputs\<close>

text \<open>Rules as they are written in a descriptor:
  \<^verbatim>\<open>proto_library(name = n, srcs = e)\<close>,
  \<^verbatim>\<open>go_proto_library(name = n, proto = p, importpath = i)\<close> and
  \<^verbatim>\<open>ts_proto_library(name = n, proto = p)\<close>.\<close>

definition proto_library :: "string \<Rightarrow> expr \<Rightarrow> rule" where
  "proto_library n e =
     \<lparr>ruleKind = ''proto_library'', ruleName = n,
      ruleAttrs = [(''name'', StringExpr n), (''srcs'', e)]\<rparr>"

definition go_proto_library :: "string \<Rightarrow> string \<Rightarrow> string \<Rightarrow> rule" where
  "go_proto_library n p i =
     \<lparr>ruleKind = ''go_proto_library'', ruleName = n,
      ruleAttrs = [(''name'', StringExpr n), (''proto'', StringExpr p),
                   (''importpath'', StringExpr i)]\<rparr>"

definition ts_proto_library :: "string \<Rightarrow> string \<Rightarrow> rule" where
  "ts_proto_library n p =
     \<lparr>ruleKind = ''ts_proto_library'', ruleName = n,
      ruleAttrs = [(''name'', StringExpr n), (''proto'', StringExpr p)]\<rparr>"

text \<open>
  The calls \<^verbatim>\<open>filepath.Walk\<close> makes for a root written as a cleaned path, in a
  file system whose entries are among the given paths.  The paths are given in the order
  of the walk (a directory, then its entries by name, each directory entry followed by
  its own entries); there is one call for the root and for every path below it that
  exists, none of them with an error.
\<close>

definition walkOver :: "string list \<Rightarrow> filesystem \<Rightarrow> string \<Rightarrow> (string \<times> bool) list" where
  "walkOver paths fs root =
     map (\<lambda>p. (p, False))
       (filter (\<lambda>p. fs p \<noteq> None \<and> (p = root \<or> HasPrefix p (root @ [sep]))) paths)"

text \<open>A workspace \<^verbatim>\<open>/ws\<close> with one package \<^verbatim>\<open>pkg\<close>, its descriptor and the
  source file \<^verbatim>\<open>m.proto\<close>; and the same with the two source files
  \<^verbatim>\<open>a.proto\<close> and \<^verbatim>\<open>b.proto\<close> instead.\<close>

definition workspace_with :: "rule list \<Rightarrow> filesystem" where
  "workspace_with buildFile =
     [''/ws'' \<mapsto> Directory,
      ''/ws/WORKSPACE'' \<mapsto> RegularFile None,
      ''/ws/pkg'' \<mapsto> Directory,
      ''/ws/pkg/m.proto'' \<mapsto> RegularFile None,
      ''/ws/pkg/BUILD'' \<mapsto> RegularFile (Some buildFile)]"

definition workspace_two :: "rule list \<Rightarrow> filesystem" where
  "workspace_two buildFile =
     [''/ws'' \<mapsto> Directory,
      ''/ws/WORKSPACE'' \<mapsto> RegularFile None,
      ''/ws/pkg'' \<mapsto> Directory,
      ''/ws/pkg/a.proto'' \<mapsto> RegularFile None,
      ''/ws/pkg/b.proto'' \<mapsto> RegularFile None,
      ''/ws/pkg/BUILD'' \<mapsto> RegularFile (Some buildFile)]"

text \<open>The descriptor and the \<^verbatim>\<open>go_proto_library\<close> rule of the worked example:
  \<^verbatim>\<open>proto_library(name = "m", srcs = ["m.proto"])\<close> and
  \<^verbatim>\<open>go_proto_library(name = "m_go", proto = ":m",
  importpath = "github.com/acme/proj/pkg/m")\<close>.\<close>

definition example_descriptor :: "rule list" where
  "example_descriptor =
     [proto_library ''m'' (ListExpr [StringExpr ''m.proto'']),
      go_proto_library ''m_go'' '':m'' ''github.com/acme/proj/pkg/m'']"

definition example_go_rule :: languageProtoRule where
  "example_go_rule =
     \<lparr>kind = ''go_proto_library'', name = ''m_go'', protoRuleName = ''m'',
      importPath = ''github.com/acme/proj/pkg/m''\<rparr>"

text \<open>A \<^verbatim>\<open>proto_library\<close> with two sources and a \<^verbatim>\<open>ts_proto_library\<close> rule
  that consumes it, and the walk over the workspace with the two source files, before
  and after a pass.\<close>

definition two_sources :: "rule list" where
  "two_sources = [proto_library ''m'' (ListExpr [StringExpr ''a.proto'', StringExpr ''b.proto'']),
      ts_proto_library ''m_ts'' '':m'']"

definition walk_two :: "filesystem \<Rightarrow> string \<Rightarrow> (string \<times> bool) list" where
  "walk_two =
     walkOver [''/ws'', ''/ws/WORKSPACE'', ''/ws/pkg'', ''/ws/pkg/BUILD'', ''/ws/pkg/a.proto'',
       ''/ws/pkg/b.proto'', ''/ws/pkg/m_ts.d.ts'']"

text \<open>The descriptor of the worked example with a \<^verbatim>\<open>ts_proto_library\<close> rule
  added, the walk over the workspace with the one source file, before and after a pass,
  and the rule as parsed.\<close>

definition both_kinds :: "rule list" where
  "both_kinds = example_descriptor @ [ts_proto_library ''m_ts'' '':m'']"

definition walk_one :: "filesystem \<Rightarrow> string \<Rightarrow> (string \<times> bool) list" where
  "walk_one =
     walkOver [''/ws'', ''/ws/WORKSPACE'', ''/ws/pkg'', ''/ws/pkg/BUILD'', ''/ws/pkg/m'',
       ''/ws/pkg/m/m.pb.go'', ''/ws/pkg/m.proto'', ''/ws/pkg/m_ts.d.ts'']"

definition example_ts_rule :: languageProtoRule where
  "example_ts_rule =
     \<lparr>kind = ''ts_proto_library'', name = ''m_ts'', protoRuleName = ''m'', importPath = []\<rparr>"

text \<open>Two descriptors for the workspace with the two source files.  In both,
  \<^verbatim>\<open>a.proto\<close> has a \<^verbatim>\<open>ts_proto_library\<close> rule; \<^verbatim>\<open>b.proto\<close> is listed by
  no rule in the first, and by a rule that nothing consumes in the second.\<close>

definition undeclared_source :: "rule list" where
  "undeclared_source =
     [proto_library ''m'' (ListExpr [StringExpr ''a.proto'']),
      ts_proto_library ''m_ts'' '':m'']"

definition unconsumed_source :: "rule list" where
  "unconsumed_source =
     [proto_library ''m'' (ListExpr [StringExpr ''a.proto'']),
      proto_library ''n'' (ListExpr [StringExpr ''b.proto'']),
      ts_proto_library ''m_ts'' '':m'']"

text \<open>Two packages, the second with a \<^verbatim>\<open>go_proto_library\<close> rule whose import
  path ends in \<^verbatim>\<open>x/BUILD\<close>, so that the directory of its link is where the
  descriptor of the first package would be.\<close>

definition build_named_dir :: "rule list" where
  "build_named_dir =
     [proto_library ''m'' (ListExpr [StringExpr ''b.proto'']),
      go_proto_library ''m_go'' '':m'' ''github.com/acme/proj/x/BUILD'']"

definition two_packages :: filesystem where
  "two_packages =
     [''/ws'' \<mapsto> Directory,
      ''/ws/WORKSPACE'' \<mapsto> RegularFile None,
      ''/ws/x'' \<mapsto> Directory,
      ''/ws/x/a.proto'' \<mapsto> RegularFile None,
      ''/ws/y'' \<mapsto> Directory,
      ''/ws/y/b.proto'' \<mapsto> RegularFile None,
      ''/ws/y/BUILD'' \<mapsto> RegularFile (Some build_named_dir)]"

definition walk_packages :: "filesystem \<Rightarrow> string \<Rightarrow> (string \<times> bool) list" where
  "walk_packages =
     walkOver [''/ws'', ''/ws/WORKSPACE'', ''/ws/x'', ''/ws/x/BUILD'', ''/ws/x/BUILD/b.pb.go'',
       ''/ws/x/a.proto'', ''/ws/y'', ''/ws/y/BUILD'', ''/ws/y/b.proto'']"

definition go_rule_named_dir :: languageProtoRule where
  "go_rule_named_dir =
     \<lparr>kind = ''go_proto_library'', name = ''m_go'', protoRuleName = ''m'',
      importPath = ''github.com/acme/proj/x/BUILD''\<rparr>"

section \<open>Properties of the descriptor index\<close>

declare MkdirAll.simps [simp del]

lemmas path_eval = Clean_def sep_def Dir_def Base_def stripTrailingSeps_def TrimPrefix_def
  TrimSuffix_def HasSuffix_def Let_def

subsection \<open>registerSrcs\<close>

lemma registerSrcs_error:
  "registerSrcs bp n srcs m = Inl e \<Longrightarrow> \<exists>s \<in> set srcs. e = SrcInMultipleProtoRules bp s"
  by (induction srcs arbitrary: m) (auto split: if_splits)

lemma registerSrcs_owned:
  "registerSrcs bp n srcs m = Inr m1 \<Longrightarrow> mapIndex m s \<noteq> [] \<Longrightarrow>
     s \<notin> set srcs \<and> m1 s = m s"
proof (induction srcs arbitrary: m)
  case Nil
  then show ?case by simp
next
  case (Cons a srcs)
  from Cons.prems have a: "mapIndex m a = []" and
    rest: "registerSrcs bp n srcs (m(a \<mapsto> n)) = Inr m1"
    by (auto split: if_splits)
  from a Cons.prems(2) have ne: "s \<noteq> a" by auto
  then have "mapIndex (m(a \<mapsto> n)) s \<noteq> []" using Cons.prems(2) by (simp add: mapIndex_def)
  from Cons.IH [OF rest this] ne show ?case by simp
qed

lemma registerSrcs_member:
  "registerSrcs bp n srcs m = Inr m1 \<Longrightarrow> n \<noteq> [] \<Longrightarrow> s \<in> set srcs \<Longrightarrow> m1 s = Some n"
proof (induction srcs arbitrary: m)
  case Nil
  then show ?case by simp
next
  case (Cons a srcs)
  from Cons.prems have rest: "registerSrcs bp n srcs (m(a \<mapsto> n)) = Inr m1"
    by (auto split: if_splits)
  show ?case
  proof (cases "s = a")
    case True
    have "mapIndex (m(a \<mapsto> n)) a \<noteq> []" using Cons.prems(2) by (simp add: mapIndex_def)
    from registerSrcs_owned [OF rest this] True show ?thesis by simp
  next
    case False
    with Cons.prems have "s \<in> set srcs" by simp
    from Cons.IH [OF rest Cons.prems(2) this] show ?thesis .
  qed
qed

lemma registerSrcs_dom:
  "registerSrcs bp n srcs m = Inr m1 \<Longrightarrow> dom m1 = dom m \<union> set srcs"
  by (induction srcs arbitrary: m) (auto split: if_splits)

subsection \<open>registerProtoRules\<close>

lemma registerProtoRules_error:
  "registerProtoRules bp rs m = Inl e \<Longrightarrow>
     (\<exists>s. e = SrcInMultipleProtoRules bp s) \<or>
     (\<exists>r \<in> set rs. AttrStrings r ''srcs'' = None \<and> e = ProtoRuleWithoutSrcs bp (ruleName r))"
proof (induction rs arbitrary: m)
  case Nil
  then show ?case by simp
next
  case (Cons r rs)
  show ?case
  proof (cases "AttrStrings r ''srcs''")
    case None
    with Cons.prems show ?thesis by simp
  next
    case (Some srcs)
    show ?thesis
    proof (cases "registerSrcs bp (ruleName r) srcs m")
      case (Inl e')
      with Some Cons.prems have "e = e'" by simp
      with registerSrcs_error [OF Inl] show ?thesis by blast
    next
      case (Inr m1)
      with Some Cons.prems have "registerProtoRules bp rs m1 = Inl e" by simp
      from Cons.IH [OF this] show ?thesis by auto
    qed
  qed
qed

lemma registerProtoRules_owned:
  "registerProtoRules bp rs m = Inr m1 \<Longrightarrow> mapIndex m s \<noteq> [] \<Longrightarrow>
     m1 s = m s \<and> (\<forall>r \<in> set rs. \<forall>srcs. AttrStrings r ''srcs'' = Some srcs \<longrightarrow> s \<notin> set srcs)"
proof (induction rs arbitrary: m)
  case Nil
  then show ?case by simp
next
  case (Cons r rs)
  from Cons.prems(1) obtain srcs m2 where
    srcs: "AttrStrings r ''srcs'' = Some srcs" and
    m2: "registerSrcs bp (ruleName r) srcs m = Inr m2" and
    rest: "registerProtoRules bp rs m2 = Inr m1"
    by (auto split: option.splits sum.splits)
  from registerSrcs_owned [OF m2 Cons.prems(2)] have a: "s \<notin> set srcs" and b: "m2 s = m s"
    by auto
  from b Cons.prems(2) have "mapIndex m2 s \<noteq> []" by (simp add: mapIndex_def)
  from Cons.IH [OF rest this] a b srcs show ?case by auto
qed

lemma registerProtoRules_dom:
  "registerProtoRules bp rs m = Inr m1 \<Longrightarrow>
     dom m1 = dom m \<union> {s. \<exists>r \<in> set rs. \<exists>srcs. AttrStrings r ''srcs'' = Some srcs \<and> s \<in> set srcs}"
proof (induction rs arbitrary: m)
  case Nil
  then show ?case by simp
next
  case (Cons r rs)
  from Cons.prems(1) obtain srcs m2 where
    srcs: "AttrStrings r ''srcs'' = Some srcs" and
    m2: "registerSrcs bp (ruleName r) srcs m = Inr m2" and
    rest: "registerProtoRules bp rs m2 = Inr m1"
    by (auto split: option.splits sum.splits)
  from Cons.IH [OF rest] registerSrcs_dom [OF m2] srcs show ?case by auto
qed

text \<open>A listed source of a named rule is registered under that rule's name.\<close>

lemma registerProtoRules_member:
  "registerProtoRules bp rs m = Inr m1 \<Longrightarrow> r \<in> set rs \<Longrightarrow> ruleName r \<noteq> [] \<Longrightarrow>
     AttrStrings r ''srcs'' = Some srcs \<Longrightarrow> s \<in> set srcs \<Longrightarrow> m1 s = Some (ruleName r)"
proof (induction rs arbitrary: m)
  case Nil
  then show ?case by simp
next
  case (Cons a rs)
  from Cons.prems(1) obtain srcsa m2 where
    srcsa: "AttrStrings a ''srcs'' = Some srcsa" and
    m2: "registerSrcs bp (ruleName a) srcsa m = Inr m2" and
    rest: "registerProtoRules bp rs m2 = Inr m1"
    by (auto split: option.splits sum.splits)
  show ?case
  proof (cases "r = a")
    case True
    with srcsa Cons.prems have "s \<in> set srcsa" and "ruleName a \<noteq> []" by auto
    from registerSrcs_member [OF m2 this(2) this(1)] have m2s: "m2 s = Some (ruleName a)" .
    with \<open>ruleName a \<noteq> []\<close> have "mapIndex m2 s \<noteq> []" by (simp add: mapIndex_def)
    from registerProtoRules_owned [OF rest this] m2s True show ?thesis by simp
  next
    case False
    with Cons.prems have "r \<in> set rs" by simp
    from Cons.IH [OF rest this Cons.prems(3,4,5)] show ?thesis .
  qed
qed

text \<open>Two named rules at different places that list the same string: no index.\<close>

lemma registerProtoRules_duplicate:
  assumes "rs = pre @ r1 # mid @ r2 # post"
    and "ruleName r1 \<noteq> []"
    and "AttrStrings r1 ''srcs'' = Some srcs1" and "s \<in> set srcs1"
    and "AttrStrings r2 ''srcs'' = Some srcs2" and "s \<in> set srcs2"
  shows "registerProtoRules bp rs m \<noteq> Inr m1"
proof
  assume ok: "registerProtoRules bp rs m = Inr m1"
  have "r1 \<in> set rs" using assms(1) by simp
  show False using ok assms
  proof (induction pre arbitrary: rs m)
    case Nil
    then obtain m2 where
      m2: "registerSrcs bp (ruleName r1) srcs1 m = Inr m2" and
      rest: "registerProtoRules bp (mid @ r2 # post) m2 = Inr m1"
      by (auto split: option.splits sum.splits)
    from registerSrcs_member [OF m2 Nil.prems(3) Nil.prems(5)] Nil.prems(3)
    have "mapIndex m2 s \<noteq> []" by (simp add: mapIndex_def)
    from registerProtoRules_owned [OF rest this] Nil.prems(6,7) show False by auto
  next
    case (Cons a pre)
    then obtain m2 where
      rest: "registerProtoRules bp (pre @ r1 # mid @ r2 # post) m2 = Inr m1"
      by (auto split: option.splits sum.splits)
    from Cons.IH [OF rest refl Cons.prems(3-7)] show False .
  qed
qed

subsection \<open>registerLangRules\<close>

lemma registerLangRules_error:
  "registerLangRules bp rs m = Inl e \<Longrightarrow>
     (\<exists>n. e = MissingProtoAttribute bp n) \<or> (\<exists>n p. e = UnsupportedProtoReference bp n p)
     \<or> (\<exists>n. e = MissingImportpathAttribute bp n)"
  by (induction rs arbitrary: m) (auto simp: Let_def split: if_splits)

lemma registerLangRules_dom:
  "registerLangRules bp rs m = Inr m1 \<Longrightarrow>
     dom m1 = dom m \<union>
       {drop 1 (AttrString r ''proto'') | r.
          r \<in> set rs \<and> (ruleKind r = goProtoLibrary \<or> ruleKind r = tsProtoLibrary)}"
proof (induction rs arbitrary: m)
  case Nil
  then show ?case by simp
next
  case (Cons a rs)
  show ?case
  proof (cases "ruleKind a \<noteq> goProtoLibrary \<and> ruleKind a \<noteq> tsProtoLibrary")
    case True
    with Cons.prems have "registerLangRules bp rs m = Inr m1" by simp
    from Cons.IH [OF this] True show ?thesis by auto
  next
    case False
    define k where "k = drop 1 (AttrString a ''proto'')"
    from False Cons.prems obtain l where
      "registerLangRules bp rs (m(k \<mapsto> l)) = Inr m1"
      unfolding k_def by (auto simp: Let_def split: if_splits)
    note X = Cons.IH [OF this]
    have Y: "dom (m(k \<mapsto> l)) = insert k (dom m)" by simp
    have "k \<in> {drop 1 (AttrString r ''proto'') | r.
          r \<in> set (a # rs) \<and> (ruleKind r = goProtoLibrary \<or> ruleKind r = tsProtoLibrary)}"
      using False unfolding k_def by auto
    moreover have "{drop 1 (AttrString r ''proto'') | r.
          r \<in> set (a # rs) \<and> (ruleKind r = goProtoLibrary \<or> ruleKind r = tsProtoLibrary)}
        = insert k {drop 1 (AttrString r ''proto'') | r.
          r \<in> set rs \<and> (ruleKind r = goProtoLibrary \<or> ruleKind r = tsProtoLibrary)}"
      using False unfolding k_def by auto
    ultimately show ?thesis unfolding X Y by blast
  qed
qed

lemma followLinks_nonlink:
  "(\<And>t. fs path \<noteq> Some (SymbolicLink t)) \<Longrightarrow> followLinks n fs path = fs path"
  by (cases n; cases "fs path") (auto split: node.splits)

lemma Stat_nonlink:
  "(\<And>t. fs path \<noteq> Some (SymbolicLink t)) \<Longrightarrow> Stat fs path = fs path"
  by (simp add: Stat_def followLinks_nonlink)

lemma ReadFile_regular:
  "fs path = Some (RegularFile c) \<Longrightarrow> ReadFile fs path = Some c"
  by (simp add: ReadFile_def Stat_nonlink)

lemma parseBuildFile_read:
  "ReadFile fs bp = Some (Some buildFile) \<Longrightarrow>
   parseBuildFile fs bp =
     (case registerProtoRules bp (Rules buildFile ''proto_library'') Map.empty of
        Inl e \<Rightarrow> Inl e
      | Inr m1 \<Rightarrow>
          (case registerLangRules bp (Rules buildFile []) Map.empty of
             Inl e \<Rightarrow> Inl e
           | Inr m2 \<Rightarrow> Inr \<lparr>protoFileToRule = m1, protoRuleToLangProtoRules = m2\<rparr>))"
  by (simp add: parseBuildFile_def)

lemma parseBuildFile_Inr:
  assumes "ReadFile fs bp = Some (Some buildFile)" and "parseBuildFile fs bp = Inr b"
  shows "registerProtoRules bp (Rules buildFile ''proto_library'') Map.empty
           = Inr (protoFileToRule b)"
    and "registerLangRules bp (Rules buildFile []) Map.empty
           = Inr (protoRuleToLangProtoRules b)"
  using assms(2) unfolding parseBuildFile_read [OF assms(1)]
  by (auto split: sum.splits)

lemma Rules_all: "Rules buildFile [] = buildFile"
  by (simp add: Rules_def)

text \<open>\<^verbatim>\<open>AttrStrings\<close> gives the strings of an attribute exactly when the attribute
  is written as a list of string literals.\<close>

lemma stringsOf_map: "stringsOf (map StringExpr all) = Some all"
  by (induction all) auto

lemma stringsOf_Some: "stringsOf es = Some all \<Longrightarrow> es = map StringExpr all"
proof (induction es arbitrary: all)
  case Nil
  then show ?case by simp
next
  case (Cons e es)
  then show ?case by (cases e) (auto split: option.splits)
qed

lemma stringsOf_Some_iff: "stringsOf es = Some all \<longleftrightarrow> es = map StringExpr all"
  using stringsOf_map stringsOf_Some by blast

lemma AttrStrings_Some_iff:
  "AttrStrings r key = Some all \<longleftrightarrow> Attr r key = Some (ListExpr (map StringExpr all))"
  by (auto simp: AttrStrings_def stringsOf_Some_iff split: option.splits expr.splits)

lemma AttrStrings_None_iff:
  "AttrStrings r key = None \<longleftrightarrow>
     (\<forall>all. Attr r key \<noteq> Some (ListExpr (map StringExpr all)))"
  using AttrStrings_Some_iff [of r key] by (cases "AttrStrings r key") auto

lemma registerProtoRules_without_srcs_iff:
  "registerProtoRules bp rs m = Inl (ProtoRuleWithoutSrcs p n) \<longleftrightarrow>
     (p = bp \<and> (\<exists>pre r post m1. rs = pre @ r # post \<and>
         registerProtoRules bp pre m = Inr m1 \<and>
         AttrStrings r ''srcs'' = None \<and> ruleName r = n))"
proof (induction rs arbitrary: m)
  case Nil
  show ?case by simp
next
  case (Cons a rs)
  show ?case
  proof (cases "AttrStrings a ''srcs''")
    case None
    have "(\<exists>pre r post m1. a # rs = pre @ r # post \<and>
         registerProtoRules bp pre m = Inr m1 \<and>
         AttrStrings r ''srcs'' = None \<and> ruleName r = n) \<longleftrightarrow> ruleName a = n"
    proof
      assume "\<exists>pre r post m1. a # rs = pre @ r # post \<and>
         registerProtoRules bp pre m = Inr m1 \<and>
         AttrStrings r ''srcs'' = None \<and> ruleName r = n"
      then obtain pre r post m1 where
        split: "a # rs = pre @ r # post" and ok: "registerProtoRules bp pre m = Inr m1"
        and n: "ruleName r = n" by blast
      have "pre = []"
      proof (cases pre)
        case Nil then show ?thesis .
      next
        case (Cons x xs)
        with split have "x = a" by simp
        with Cons ok None show ?thesis by simp
      qed
      with split n show "ruleName a = n" by simp
    next
      assume "ruleName a = n"
      then have "a # rs = [] @ a # rs \<and> registerProtoRules bp [] m = Inr m \<and>
         AttrStrings a ''srcs'' = None \<and> ruleName a = n"
        using None by simp
      then show "\<exists>pre r post m1. a # rs = pre @ r # post \<and>
         registerProtoRules bp pre m = Inr m1 \<and>
         AttrStrings r ''srcs'' = None \<and> ruleName r = n" by blast
    qed
    with None show ?thesis by auto
  next
    case (Some srcs)
    show ?thesis
    proof (cases "registerSrcs bp (ruleName a) srcs m")
      case (Inl e)
      from registerSrcs_error [OF Inl] have lhs: "registerProtoRules bp (a # rs) m
          \<noteq> Inl (ProtoRuleWithoutSrcs p n)"
        using Some Inl by auto
      have "\<not> (\<exists>pre r post m1. a # rs = pre @ r # post \<and>
         registerProtoRules bp pre m = Inr m1 \<and>
         AttrStrings r ''srcs'' = None \<and> ruleName r = n)"
      proof
        assume "\<exists>pre r post m1. a # rs = pre @ r # post \<and>
         registerProtoRules bp pre m = Inr m1 \<and>
         AttrStrings r ''srcs'' = None \<and> ruleName r = n"
        then obtain pre r post m1 where
          split: "a # rs = pre @ r # post" and ok: "registerProtoRules bp pre m = Inr m1"
          and none: "AttrStrings r ''srcs'' = None" by blast
        show False
        proof (cases pre)
          case Nil
          with split none Some show False by simp
        next
          case (Cons x xs)
          with split have "x = a" by simp
          with Cons ok Some Inl show False by simp
        qed
      qed
      with lhs show ?thesis by blast
    next
      case (Inr m2)
      have step: "\<And>xs. registerProtoRules bp (a # xs) m = registerProtoRules bp xs m2"
        using Some Inr by simp
      have "(\<exists>pre r post m1. a # rs = pre @ r # post \<and>
         registerProtoRules bp pre m = Inr m1 \<and>
         AttrStrings r ''srcs'' = None \<and> ruleName r = n) \<longleftrightarrow>
        (\<exists>pre r post m1. rs = pre @ r # post \<and>
         registerProtoRules bp pre m2 = Inr m1 \<and>
         AttrStrings r ''srcs'' = None \<and> ruleName r = n)" (is "?L \<longleftrightarrow> ?R")
      proof
        assume ?L
        then obtain pre r post m1 where
          split: "a # rs = pre @ r # post" and ok: "registerProtoRules bp pre m = Inr m1"
          and none: "AttrStrings r ''srcs'' = None" and n: "ruleName r = n" by blast
        show ?R
        proof (cases pre)
          case Nil
          with split none Some show ?thesis by simp
        next
          case (Cons x xs)
          with split have x: "x = a" and rs: "rs = xs @ r # post" by simp_all
          from ok Cons x step have "registerProtoRules bp xs m2 = Inr m1" by simp
          with rs none n show ?thesis by blast
        qed
      next
        assume ?R
        then obtain pre r post m1 where
          split: "rs = pre @ r # post" and ok: "registerProtoRules bp pre m2 = Inr m1"
          and none: "AttrStrings r ''srcs'' = None" and n: "ruleName r = n" by blast
        from split have "a # rs = (a # pre) @ r # post" by simp
        moreover from ok step have "registerProtoRules bp (a # pre) m = Inr m1" by simp
        ultimately show ?L using none n by blast
      qed
      with Cons.IH [of m2] step show ?thesis by simp
    qed
  qed
qed

text \<open>
  C8 (as amended).  Parsing fails with the rule-without-srcs error naming a rule exactly
  when the \<^verbatim>\<open>proto_library\<close> rules before some rule of that name register without
  error and the \<^verbatim>\<open>srcs\<close> attribute of that rule is not a list of string literals:
  it is missing, or it is another expression (a single string, a call), or it is a list
  with an element that is not a string literal.  A \<^verbatim>\<open>srcs\<close> attribute that is the
  empty list is a list of string literals, so it never causes this error.
\<close>

theorem parseBuildFile_missing_srcs:
  assumes "ReadFile fs buildFilePath = Some (Some buildFile)"
  shows "parseBuildFile fs buildFilePath = Inl (ProtoRuleWithoutSrcs p n) \<longleftrightarrow>
     (p = buildFilePath \<and>
      (\<exists>pre r post m1. Rules buildFile ''proto_library'' = pre @ r # post \<and>
         registerProtoRules buildFilePath pre Map.empty = Inr m1 \<and>
         (\<forall>all. Attr r ''srcs'' \<noteq> Some (ListExpr (map StringExpr all))) \<and>
         ruleName r = n))"
proof (cases "registerProtoRules buildFilePath (Rules buildFile ''proto_library'') Map.empty")
  case (Inl e)
  then have "parseBuildFile fs buildFilePath = Inl e"
    by (simp add: parseBuildFile_read [OF assms])
  with Inl registerProtoRules_without_srcs_iff
    [of buildFilePath "Rules buildFile ''proto_library''" Map.empty p n]
  show ?thesis by (simp add: AttrStrings_None_iff)
next
  case (Inr m1)
  have "parseBuildFile fs buildFilePath \<noteq> Inl (ProtoRuleWithoutSrcs p n)"
  proof
    assume a: "parseBuildFile fs buildFilePath = Inl (ProtoRuleWithoutSrcs p n)"
    with Inr have "registerLangRules buildFilePath (Rules buildFile []) Map.empty
        = Inl (ProtoRuleWithoutSrcs p n)"
      by (simp add: parseBuildFile_read [OF assms] split: sum.splits)
    from registerLangRules_error [OF this] show False by auto
  qed
  with Inr registerProtoRules_without_srcs_iff
    [of buildFilePath "Rules buildFile ''proto_library''" Map.empty p n]
  show ?thesis by (simp add: AttrStrings_None_iff)
qed

text \<open>
  C5 (as amended).  When two \<^verbatim>\<open>proto_library\<close> rules with non-empty names, at
  different places of the descriptor and in either order, have \<^verbatim>\<open>srcs\<close> written
  as lists of string literals that hold the same string, parsing returns no index: it
  fails, with the source-in-multiple-rules error unless a \<^verbatim>\<open>proto_library\<close> rule
  whose \<^verbatim>\<open>srcs\<close> is not a list of string literals is met first (the rules before
  it register without error), which fails with the rule-without-srcs error.
\<close>

theorem parseBuildFile_duplicate_source:
  assumes "ReadFile fs buildFilePath = Some (Some buildFile)"
    and "i < length (Rules buildFile ''proto_library'')"
    and "j < length (Rules buildFile ''proto_library'')"
    and "i \<noteq> j"
    and "ruleName (Rules buildFile ''proto_library'' ! i) \<noteq> []"
    and "ruleName (Rules buildFile ''proto_library'' ! j) \<noteq> []"
    and "Attr (Rules buildFile ''proto_library'' ! i) ''srcs''
           = Some (ListExpr (map StringExpr srcsi))"
    and "Attr (Rules buildFile ''proto_library'' ! j) ''srcs''
           = Some (ListExpr (map StringExpr srcsj))"
    and "s \<in> set srcsi" and "s \<in> set srcsj"
  shows "\<exists>e. parseBuildFile fs buildFilePath = Inl e \<and>
           ((\<exists>s1. e = SrcInMultipleProtoRules buildFilePath s1) \<or>
            (\<exists>pre r post m1.
               Rules buildFile ''proto_library'' = pre @ r # post \<and>
               registerProtoRules buildFilePath pre Map.empty = Inr m1 \<and>
               (\<forall>all. Attr r ''srcs'' \<noteq> Some (ListExpr (map StringExpr all))) \<and>
               e = ProtoRuleWithoutSrcs buildFilePath (ruleName r)))"
proof -
  define prs where "prs = Rules buildFile ''proto_library''"
  have dup: "\<And>a b sa sb m m1. a < b \<Longrightarrow> b < length prs \<Longrightarrow> ruleName (prs ! a) \<noteq> [] \<Longrightarrow>
      AttrStrings (prs ! a) ''srcs'' = Some sa \<Longrightarrow> AttrStrings (prs ! b) ''srcs'' = Some sb \<Longrightarrow>
      s \<in> set sa \<Longrightarrow> s \<in> set sb \<Longrightarrow> registerProtoRules buildFilePath prs m \<noteq> Inr m1"
  proof -
    fix a b sa sb m m1
    assume ab: "a < b" and b: "b < length prs" and nm: "ruleName (prs ! a) \<noteq> []"
      and sa: "AttrStrings (prs ! a) ''srcs'' = Some sa"
      and sb: "AttrStrings (prs ! b) ''srcs'' = Some sb"
      and ina: "s \<in> set sa" and inb: "s \<in> set sb"
    from ab b have a: "a < length prs" by simp
    have "prs = take a prs @ prs ! a # drop (Suc a) prs"
      using a by (rule id_take_nth_drop)
    moreover have "drop (Suc a) prs
        = take (b - Suc a) (drop (Suc a) prs) @ drop (Suc a) prs ! (b - Suc a)
            # drop (Suc (b - Suc a)) (drop (Suc a) prs)"
      using ab b by (intro id_take_nth_drop) simp
    moreover have "drop (Suc a) prs ! (b - Suc a) = prs ! b"
      using ab b by simp
    ultimately have "prs = take a prs @ prs ! a # take (b - Suc a) (drop (Suc a) prs)
        @ prs ! b # drop (Suc (b - Suc a)) (drop (Suc a) prs)"
      by simp
    from registerProtoRules_duplicate [OF this nm sa ina sb inb]
    show "registerProtoRules buildFilePath prs m \<noteq> Inr m1" .
  qed
  have si: "AttrStrings (prs ! i) ''srcs'' = Some srcsi"
    and sj: "AttrStrings (prs ! j) ''srcs'' = Some srcsj"
    using assms(7,8) unfolding prs_def by (simp_all add: AttrStrings_Some_iff)
  have "\<And>m1. registerProtoRules buildFilePath prs Map.empty \<noteq> Inr m1"
  proof (cases "i < j")
    case True
    fix m1
    from dup [OF True _ _ si sj] assms(3,5,9,10)
    show "registerProtoRules buildFilePath prs Map.empty \<noteq> Inr m1"
      unfolding prs_def by blast
  next
    case False
    fix m1
    from False assms(4) have "j < i" by simp
    from dup [OF this _ _ sj si] assms(2,6,9,10)
    show "registerProtoRules buildFilePath prs Map.empty \<noteq> Inr m1"
      unfolding prs_def by blast
  qed
  then obtain e where e: "registerProtoRules buildFilePath prs Map.empty = Inl e"
    by (cases "registerProtoRules buildFilePath prs Map.empty") auto
  then have p: "parseBuildFile fs buildFilePath = Inl e"
    unfolding prs_def by (simp add: parseBuildFile_read [OF assms(1)])
  from registerProtoRules_error [OF e]
  consider (dup) s1 where "e = SrcInMultipleProtoRules buildFilePath s1"
    | (nosrcs) n where "e = ProtoRuleWithoutSrcs buildFilePath n"
    by blast
  then show ?thesis
  proof cases
    case dup
    with p show ?thesis by blast
  next
    case nosrcs
    with e registerProtoRules_without_srcs_iff
      [of buildFilePath prs Map.empty buildFilePath n]
    obtain pre r1 post m1 where "prs = pre @ r1 # post"
      and "registerProtoRules buildFilePath pre Map.empty = Inr m1"
      and "AttrStrings r1 ''srcs'' = None" and "ruleName r1 = n"
      by auto
    with p nosrcs show ?thesis
      unfolding prs_def AttrStrings_None_iff by blast
  qed
qed

lemma Base_sep: "sep \<in> set (Base path) \<Longrightarrow> Base path = [sep]"
  by (auto simp: Base_def Let_def sep_def dest: set_takeWhileD)

text \<open>
  C9 (as amended).  After a successful parse the index maps every string of the
  \<^verbatim>\<open>srcs\<close> of a \<^verbatim>\<open>proto_library\<close> rule with a non-empty name, as it is
  written, to that rule's name.  The lookup for a source file takes the base name of the
  file's path as the key: the index has that key exactly when some
  \<^verbatim>\<open>proto_library\<close> rule lists the base name itself, and the lookup then gives the
  generation rules registered for the rule the index names.  A string that has a
  directory part is the base name of no path, so a file that is listed only that way is
  not found.
\<close>

theorem parseBuildFile_index_listed_string:
  assumes "ReadFile fs buildFilePath = Some (Some buildFile)"
    and "parseBuildFile fs buildFilePath = Inr b"
  shows "(\<forall>r \<in> set (Rules buildFile ''proto_library''). \<forall>srcs. \<forall>s \<in> set srcs.
            ruleName r \<noteq> [] \<and> Attr r ''srcs'' = Some (ListExpr (map StringExpr srcs))
              \<longrightarrow> protoFileToRule b s = Some (ruleName r))
       \<and> (protoFileToRule b (Base protoFile) \<noteq> None \<longleftrightarrow>
            (\<exists>r \<in> set (Rules buildFile ''proto_library''). \<exists>srcs.
               Attr r ''srcs'' = Some (ListExpr (map StringExpr srcs)) \<and>
               Base protoFile \<in> set srcs))
       \<and> getLangProtoRulesForProto b protoFile
            = (case protoFileToRule b (Base protoFile) of
                 None \<Rightarrow> None
               | Some n \<Rightarrow> protoRuleToLangProtoRules b n)
       \<and> (\<forall>s. sep \<in> set s \<and> s \<noteq> [sep] \<longrightarrow> Base protoFile \<noteq> s)"
proof (intro conjI)
  note reg = parseBuildFile_Inr(1) [OF assms(1,2)]
  show "\<forall>r \<in> set (Rules buildFile ''proto_library''). \<forall>srcs. \<forall>s \<in> set srcs.
            ruleName r \<noteq> [] \<and> Attr r ''srcs'' = Some (ListExpr (map StringExpr srcs))
              \<longrightarrow> protoFileToRule b s = Some (ruleName r)"
    using registerProtoRules_member [OF reg] by (auto simp: AttrStrings_Some_iff)
  from registerProtoRules_dom [OF reg]
  have "Base protoFile \<in> dom (protoFileToRule b) \<longleftrightarrow>
      (\<exists>r \<in> set (Rules buildFile ''proto_library''). \<exists>srcs.
         AttrStrings r ''srcs'' = Some srcs \<and> Base protoFile \<in> set srcs)"
    by simp
  then show "protoFileToRule b (Base protoFile) \<noteq> None \<longleftrightarrow>
            (\<exists>r \<in> set (Rules buildFile ''proto_library''). \<exists>srcs.
               Attr r ''srcs'' = Some (ListExpr (map StringExpr srcs)) \<and>
               Base protoFile \<in> set srcs)"
    by (simp add: domIff AttrStrings_Some_iff)
  show "getLangProtoRulesForProto b protoFile
            = (case protoFileToRule b (Base protoFile) of
                 None \<Rightarrow> None
               | Some n \<Rightarrow> protoRuleToLangProtoRules b n)"
    by (simp add: getLangProtoRulesForProto_def split: option.splits)
  show "\<forall>s. sep \<in> set s \<and> s \<noteq> [sep] \<longrightarrow> Base protoFile \<noteq> s"
    using Base_sep [of protoFile] by auto
qed


lemmas descr_eval = proto_library_def go_proto_library_def ts_proto_library_def Rules_def
  Attr_def AttrString_def AttrStrings_def mapIndex_def goProtoLibrary_def tsProtoLibrary_def

lemma ReadFile_workspace_with:
  "ReadFile (workspace_with buildFile) ''/ws/pkg/BUILD'' = Some (Some buildFile)"
  by (rule ReadFile_regular) (simp add: workspace_with_def)

lemma Stat_workspace_with:
  "Stat (workspace_with buildFile) ''/ws/WORKSPACE'' = Some (RegularFile None)"
  by (subst Stat_nonlink) (simp_all add: workspace_with_def)

text \<open>Against C5 as stated: two rules that list sources with the same base name,
  written as different strings, are both registered and parsing succeeds.\<close>

theorem parseBuildFile_same_basename_counterexample:
  "Base ''sub/m.proto'' = Base ''m.proto'' \<and>
   parseBuildFile
     (workspace_with
        [proto_library ''a'' (ListExpr [StringExpr ''m.proto'']),
         proto_library ''b'' (ListExpr [StringExpr ''sub/m.proto''])])
     ''/ws/pkg/BUILD''
   = Inr \<lparr>protoFileToRule = [''m.proto'' \<mapsto> ''a'', ''sub/m.proto'' \<mapsto> ''b''],
          protoRuleToLangProtoRules = Map.empty\<rparr>"
  by (simp add: parseBuildFile_read [OF ReadFile_workspace_with] descr_eval path_eval)

theorem parseBuildFile_duplicate_source_witness:
  "parseBuildFile
     (workspace_with
        [proto_library ''a'' (ListExpr [StringExpr ''m.proto'']),
         proto_library ''b'' (ListExpr [StringExpr ''m.proto''])])
     ''/ws/pkg/BUILD''
   = Inl (SrcInMultipleProtoRules ''/ws/pkg/BUILD'' ''m.proto'') \<and>
   parseBuildFile
     (workspace_with
        [proto_library ''b'' (ListExpr [StringExpr ''m.proto'']),
         proto_library ''a'' (ListExpr [StringExpr ''m.proto''])])
     ''/ws/pkg/BUILD''
   = Inl (SrcInMultipleProtoRules ''/ws/pkg/BUILD'' ''m.proto'')"
proof -
  let ?a = "proto_library ''a'' (ListExpr [StringExpr ''m.proto''])"
  let ?b = "proto_library ''b'' (ListExpr [StringExpr ''m.proto''])"
  have rules: "Rules [?a, ?b] ''proto_library'' = [?a, ?b]"
    "Rules [?b, ?a] ''proto_library'' = [?b, ?a]"
    by (simp_all add: Rules_def proto_library_def)
  have names: "ruleName ?a \<noteq> []" "ruleName ?b \<noteq> []"
    by (simp_all add: proto_library_def)
  have 1: "\<exists>e. parseBuildFile (workspace_with [?a, ?b]) ''/ws/pkg/BUILD'' = Inl e \<and>
           ((\<exists>s1. e = SrcInMultipleProtoRules ''/ws/pkg/BUILD'' s1) \<or>
            (\<exists>pre r post m1.
               Rules [?a, ?b] ''proto_library'' = pre @ r # post \<and>
               registerProtoRules ''/ws/pkg/BUILD'' pre Map.empty = Inr m1 \<and>
               (\<forall>all. Attr r ''srcs'' \<noteq> Some (ListExpr (map StringExpr all))) \<and>
               e = ProtoRuleWithoutSrcs ''/ws/pkg/BUILD'' (ruleName r)))"
    by (rule parseBuildFile_duplicate_source [OF ReadFile_workspace_with [of "[?a, ?b]"],
          where i = 0 and j = 1 and srcsi = "[''m.proto'']" and srcsj = "[''m.proto'']"
            and s = "''m.proto''"])
       (simp_all add: rules names descr_eval)
  have 2: "\<exists>e. parseBuildFile (workspace_with [?b, ?a]) ''/ws/pkg/BUILD'' = Inl e \<and>
           ((\<exists>s1. e = SrcInMultipleProtoRules ''/ws/pkg/BUILD'' s1) \<or>
            (\<exists>pre r post m1.
               Rules [?b, ?a] ''proto_library'' = pre @ r # post \<and>
               registerProtoRules ''/ws/pkg/BUILD'' pre Map.empty = Inr m1 \<and>
               (\<forall>all. Attr r ''srcs'' \<noteq> Some (ListExpr (map StringExpr all))) \<and>
               e = ProtoRuleWithoutSrcs ''/ws/pkg/BUILD'' (ruleName r)))"
    by (rule parseBuildFile_duplicate_source [OF ReadFile_workspace_with [of "[?b, ?a]"],
          where i = 0 and j = 1 and srcsi = "[''m.proto'']" and srcsj = "[''m.proto'']"
            and s = "''m.proto''"])
       (simp_all add: rules names descr_eval)
  from 1 2 show ?thesis
    by (simp add: parseBuildFile_read [OF ReadFile_workspace_with] descr_eval)
qed

text \<open>Against C8 as stated: a \<^verbatim>\<open>proto_library\<close> rule that has a \<^verbatim>\<open>srcs\<close>
  attribute, written as a single string, fails with the rule-without-srcs error.\<close>

theorem parseBuildFile_string_srcs_counterexample:
  "Attr (proto_library ''m'' (StringExpr ''m.proto'')) ''srcs'' = Some (StringExpr ''m.proto'') \<and>
   parseBuildFile (workspace_with [proto_library ''m'' (StringExpr ''m.proto'')]) ''/ws/pkg/BUILD''
   = Inl (ProtoRuleWithoutSrcs ''/ws/pkg/BUILD'' ''m'')"
  by (simp add: parseBuildFile_read [OF ReadFile_workspace_with] descr_eval)

text \<open>A rule with the empty list is passed without this error; the rule after it, whose
  list holds something that is not a string literal, fails with it.\<close>

theorem parseBuildFile_missing_srcs_witness:
  "ReadFile
     (workspace_with
        [proto_library ''e'' (ListExpr []),
         proto_library ''m'' (ListExpr [StringExpr ''m.proto'', OtherExpr])])
     ''/ws/pkg/BUILD''
     = Some (Some [proto_library ''e'' (ListExpr []),
                   proto_library ''m'' (ListExpr [StringExpr ''m.proto'', OtherExpr])]) \<and>
   parseBuildFile
     (workspace_with
        [proto_library ''e'' (ListExpr []),
         proto_library ''m'' (ListExpr [StringExpr ''m.proto'', OtherExpr])])
     ''/ws/pkg/BUILD''
   = Inl (ProtoRuleWithoutSrcs ''/ws/pkg/BUILD'' ''m'') \<and>
   parseBuildFile
     (workspace_with
        [proto_library ''e'' (ListExpr []),
         proto_library ''m'' (ListExpr [StringExpr ''m.proto'', OtherExpr])])
     ''/ws/pkg/BUILD''
   \<noteq> Inl (ProtoRuleWithoutSrcs ''/ws/pkg/BUILD'' ''e'')"
proof -
  let ?e = "proto_library ''e'' (ListExpr [])"
  let ?m = "proto_library ''m'' (ListExpr [StringExpr ''m.proto'', OtherExpr])"
  have "AttrStrings ?m ''srcs'' = None"
    by (simp add: descr_eval)
  then have nolist: "\<forall>all. Attr ?m ''srcs'' \<noteq> Some (ListExpr (map StringExpr all))"
    unfolding AttrStrings_None_iff .
  have "Rules [?e, ?m] ''proto_library'' = [?e] @ ?m # [] \<and>
        registerProtoRules ''/ws/pkg/BUILD'' [?e] Map.empty = Inr Map.empty \<and>
        ruleName ?m = ''m''"
    by (simp add: descr_eval)
  with nolist
  have "\<exists>pre r post m1. Rules [?e, ?m] ''proto_library'' = pre @ r # post \<and>
        registerProtoRules ''/ws/pkg/BUILD'' pre Map.empty = Inr m1 \<and>
        (\<forall>all. Attr r ''srcs'' \<noteq> Some (ListExpr (map StringExpr all))) \<and>
        ruleName r = ''m''"
    by blast
  with parseBuildFile_missing_srcs [OF ReadFile_workspace_with [of "[?e, ?m]"],
      where p = "''/ws/pkg/BUILD''" and n = "''m''"]
  have "parseBuildFile (workspace_with [?e, ?m]) ''/ws/pkg/BUILD''
      = Inl (ProtoRuleWithoutSrcs ''/ws/pkg/BUILD'' ''m'')"
    by simp
  then show ?thesis by (simp add: ReadFile_workspace_with)
qed

text \<open>Against C9 as stated: a source listed with a directory part is registered under
  the whole string, not under its base name, and the lookup for the file does not find
  the declaring rule.\<close>

theorem parseBuildFile_index_subdir_counterexample:
  "Base ''sub/m.proto'' = ''m.proto'' \<and>
   parseBuildFile
     (workspace_with
        [proto_library ''m'' (ListExpr [StringExpr ''sub/m.proto'']),
         ts_proto_library ''m_ts'' '':m''])
     ''/ws/pkg/BUILD''
   = Inr \<lparr>protoFileToRule = [''sub/m.proto'' \<mapsto> ''m''],
          protoRuleToLangProtoRules =
            [''m'' \<mapsto> [\<lparr>kind = ''ts_proto_library'', name = ''m_ts'', protoRuleName = ''m'',
                          importPath = []\<rparr>]]\<rparr> \<and>
   [''sub/m.proto'' \<mapsto> ''m''] (Base ''sub/m.proto'') = None \<and>
   getLangProtoRulesForProto
     \<lparr>protoFileToRule = [''sub/m.proto'' \<mapsto> ''m''],
      protoRuleToLangProtoRules =
        [''m'' \<mapsto> [\<lparr>kind = ''ts_proto_library'', name = ''m_ts'', protoRuleName = ''m'',
                      importPath = []\<rparr>]]\<rparr>
     ''/ws/pkg/sub/m.proto'' = None"
  by (simp add: parseBuildFile_read [OF ReadFile_workspace_with] descr_eval path_eval
       getLangProtoRulesForProto_def)

text \<open>A source listed twice, with a directory part and as a base name: the index has
  both strings, and the lookup for the file in the directory finds the rule through the
  base name.\<close>

theorem parseBuildFile_index_listed_string_witness:
  "parseBuildFile
     (workspace_with
        [proto_library ''m'' (ListExpr [StringExpr ''sub/m.proto'', StringExpr ''m.proto'']),
         ts_proto_library ''m_ts'' '':m''])
     ''/ws/pkg/BUILD''
   = Inr \<lparr>protoFileToRule = [''sub/m.proto'' \<mapsto> ''m'', ''m.proto'' \<mapsto> ''m''],
          protoRuleToLangProtoRules = [''m'' \<mapsto> [example_ts_rule]]\<rparr> \<and>
   getLangProtoRulesForProto
     \<lparr>protoFileToRule = [''sub/m.proto'' \<mapsto> ''m'', ''m.proto'' \<mapsto> ''m''],
      protoRuleToLangProtoRules = [''m'' \<mapsto> [example_ts_rule]]\<rparr>
     ''/ws/pkg/sub/m.proto''
   = Some [example_ts_rule] \<and>
   Base ''/ws/pkg/sub/m.proto'' \<noteq> ''sub/m.proto''"
proof -
  let ?bf = "[proto_library ''m'' (ListExpr [StringExpr ''sub/m.proto'', StringExpr ''m.proto'']),
              ts_proto_library ''m_ts'' '':m'']"
  let ?b = "\<lparr>protoFileToRule = [''sub/m.proto'' \<mapsto> ''m'', ''m.proto'' \<mapsto> ''m''],
      protoRuleToLangProtoRules = [''m'' \<mapsto> [example_ts_rule]]\<rparr>"
  have p: "parseBuildFile (workspace_with ?bf) ''/ws/pkg/BUILD'' = Inr ?b"
    by (simp add: parseBuildFile_read [OF ReadFile_workspace_with] descr_eval
          example_ts_rule_def)
  note t = parseBuildFile_index_listed_string [OF ReadFile_workspace_with [of ?bf] p,
      of "''/ws/pkg/sub/m.proto''"]
  from t have look: "getLangProtoRulesForProto ?b ''/ws/pkg/sub/m.proto''
            = (case protoFileToRule ?b (Base ''/ws/pkg/sub/m.proto'') of
                 None \<Rightarrow> None
               | Some n \<Rightarrow> protoRuleToLangProtoRules ?b n)"
    by blast
  from t have "\<forall>s. sep \<in> set s \<and> s \<noteq> [sep] \<longrightarrow> Base ''/ws/pkg/sub/m.proto'' \<noteq> s"
    by blast
  then have ne: "Base ''/ws/pkg/sub/m.proto'' \<noteq> ''sub/m.proto''"
    by (simp add: sep_def)
  have "Base ''/ws/pkg/sub/m.proto'' = ''m.proto''" by (simp add: path_eval)
  with look have "getLangProtoRulesForProto ?b ''/ws/pkg/sub/m.proto''
      = Some [example_ts_rule]"
    by simp
  with p ne show ?thesis by simp
qed

section \<open>Properties of the pattern\<close>

lemma sep_not_newline: "sep \<noteq> newline"
  by (simp add: sep_def newline_def)

lemma HasPrefix_iff: "HasPrefix s p \<longleftrightarrow> (\<exists>r. s = p @ r)"
  by (induction s p rule: HasPrefix.induct) auto

lemma matchLiteral_Some_iff: "matchLiteral p s = Some r \<longleftrightarrow> s = p @ r"
  by (auto simp: matchLiteral_def HasPrefix_iff)

lemma lazyMore_matches:
  "lazyMore k s \<noteq> None \<longleftrightarrow>
     (\<exists>x t. s = x @ sep # t \<and> newline \<notin> set x \<and> k t \<noteq> None)"
proof (induction s)
  case Nil
  show ?case by simp
next
  case (Cons c cs)
  show ?case
  proof
    assume a: "lazyMore k (c # cs) \<noteq> None"
    show "\<exists>x t. c # cs = x @ sep # t \<and> newline \<notin> set x \<and> k t \<noteq> None"
    proof (cases "c = sep \<and> k cs \<noteq> None")
      case True
      then have "c # cs = [] @ sep # cs \<and> newline \<notin> set [] \<and> k cs \<noteq> None" by simp
      then show ?thesis by blast
    next
      case False
      with a have nl: "c \<noteq> newline" and "lazyMore k cs \<noteq> None"
        using sep_not_newline by (auto split: if_splits option.splits)
      with Cons.IH obtain x t where "cs = x @ sep # t" "newline \<notin> set x" "k t \<noteq> None"
        by blast
      with nl have "c # cs = (c # x) @ sep # t \<and> newline \<notin> set (c # x) \<and> k t \<noteq> None"
        by auto
      then show ?thesis by blast
    qed
  next
    assume "\<exists>x t. c # cs = x @ sep # t \<and> newline \<notin> set x \<and> k t \<noteq> None"
    then obtain x t where s: "c # cs = x @ sep # t" and nl: "newline \<notin> set x"
      and k: "k t \<noteq> None" by blast
    show "lazyMore k (c # cs) \<noteq> None"
    proof (cases x)
      case Nil
      with s k show ?thesis by auto
    next
      case (Cons a x1)
      with s nl have "c = a" "cs = x1 @ sep # t" "newline \<notin> set x1" "c \<noteq> newline" by auto
      with k Cons.IH have "lazyMore k cs \<noteq> None" by blast
      with \<open>c \<noteq> newline\<close> show ?thesis by (auto split: option.splits)
    qed
  qed
qed

lemma lazyGroupSep_matches:
  "lazyGroupSep k s \<noteq> None \<longleftrightarrow>
     (\<exists>x t. s = x @ sep # t \<and> x \<noteq> [] \<and> newline \<notin> set x \<and> k t \<noteq> None)"
proof (cases s)
  case Nil
  then show ?thesis by simp
next
  case (Cons c cs)
  show ?thesis
  proof
    assume "lazyGroupSep k s \<noteq> None"
    with Cons have nl: "c \<noteq> newline" and "lazyMore k cs \<noteq> None"
      by (auto split: if_splits)
    then obtain x t where "cs = x @ sep # t" "newline \<notin> set x" "k t \<noteq> None"
      unfolding lazyMore_matches by blast
    with nl Cons have "s = (c # x) @ sep # t \<and> c # x \<noteq> [] \<and> newline \<notin> set (c # x)
        \<and> k t \<noteq> None" by auto
    then show "\<exists>x t. s = x @ sep # t \<and> x \<noteq> [] \<and> newline \<notin> set x \<and> k t \<noteq> None"
      by blast
  next
    assume "\<exists>x t. s = x @ sep # t \<and> x \<noteq> [] \<and> newline \<notin> set x \<and> k t \<noteq> None"
    then obtain x t where s: "s = x @ sep # t" and ne: "x \<noteq> []"
      and nl: "newline \<notin> set x" and k: "k t \<noteq> None" by blast
    from ne obtain a x1 where x: "x = a # x1" by (cases x) auto
    with s Cons nl have "c = a" "cs = x1 @ sep # t" "newline \<notin> set x1" "c \<noteq> newline"
      by auto
    with k have "lazyMore k cs \<noteq> None" unfolding lazyMore_matches by blast
    with Cons \<open>c \<noteq> newline\<close> show "lazyGroupSep k s \<noteq> None" by simp
  qed
qed

text \<open>A match consumes at least the separator that closes the group.\<close>

lemma lazyMore_shorter:
  "lazyMore k s = Some r \<Longrightarrow> (\<And>t r1. k t = Some r1 \<Longrightarrow> length r1 \<le> length t) \<Longrightarrow>
     length r < length s"
proof (induction s)
  case Nil
  then show ?case by simp
next
  case (Cons c cs)
  show ?case
  proof (cases "c = sep \<and> k cs \<noteq> None")
    case True
    with Cons.prems(1) have "k cs = Some r" by auto
    from Cons.prems(2) [OF this] show ?thesis by simp
  next
    case False
    with Cons.prems(1) have "lazyMore k cs = Some r"
      by (auto split: if_splits option.splits)
    from Cons.IH [OF this Cons.prems(2)] show ?thesis by simp
  qed
qed

lemma lazyGroupSep_shorter:
  "lazyGroupSep k s = Some r \<Longrightarrow> (\<And>t r1. k t = Some r1 \<Longrightarrow> length r1 \<le> length t) \<Longrightarrow>
     length r < length s"
  by (cases s) (auto split: if_splits dest!: lazyMore_shorter)

lemma githubRepoRe_shorter: "githubRepoRe s = Some r \<Longrightarrow> length r < length s"
proof -
  assume a: "githubRepoRe s = Some r"
  then obtain r1 r2 r3 where 1: "matchLiteral ''github'' s = Some r1"
    and 2: "matchAnyNotNL r1 = Some r2" and 3: "matchLiteral ''com/'' r2 = Some r3"
    and 4: "lazyGroupSep (lazyGroupSep Some) r3 = Some r"
    by (auto simp: githubRepoRe_def split: option.splits)
  have inner: "\<And>t r1. lazyGroupSep Some t = Some r1 \<Longrightarrow> length r1 \<le> length t"
    using lazyGroupSep_shorter [of Some] by fastforce
  from lazyGroupSep_shorter [OF 4 inner] have "length r < length r3" by simp
  moreover from 3 have "length r3 \<le> length r2" by (auto simp: matchLiteral_Some_iff)
  moreover from 2 have "length r2 \<le> length r1"
    by (auto simp: matchAnyNotNL_def split: list.splits if_splits)
  moreover from 1 have "length r1 \<le> length s" by (auto simp: matchLiteral_Some_iff)
  ultimately show ?thesis by simp
qed

lemma ReplaceAll_noop_iff:
  "ReplaceAllLiteralString_empty s = s \<longleftrightarrow> githubRepoRe s = None"
  using githubRepoRe_shorter [of s]
  by (auto simp: ReplaceAllLiteralString_empty_def split: option.splits)

lemma githubRepoRe_matches:
  "githubRepoRe s \<noteq> None \<longleftrightarrow>
     (\<exists>r1 x y rest. s = ''github'' @ r1 \<and> r1 \<noteq> [] \<and> hd r1 \<noteq> newline \<and>
        drop (runeWidth r1) r1 = ''com/'' @ x @ sep # y @ sep # rest \<and>
        x \<noteq> [] \<and> newline \<notin> set x \<and> y \<noteq> [] \<and> newline \<notin> set y)"
  (is "?L \<longleftrightarrow> ?R")
proof
  assume ?L
  then obtain r1 r2 r3 where 1: "matchLiteral ''github'' s = Some r1"
    and 2: "matchAnyNotNL r1 = Some r2" and 3: "matchLiteral ''com/'' r2 = Some r3"
    and 4: "lazyGroupSep (lazyGroupSep Some) r3 \<noteq> None"
    by (auto simp: githubRepoRe_def split: option.splits)
  from 4 obtain x t where r3: "r3 = x @ sep # t" and x: "x \<noteq> []" "newline \<notin> set x"
    and 5: "lazyGroupSep Some t \<noteq> None"
    unfolding lazyGroupSep_matches [of "lazyGroupSep Some"] by blast
  from 5 obtain y rest where t: "t = y @ sep # rest" and y: "y \<noteq> []" "newline \<notin> set y"
    unfolding lazyGroupSep_matches [of Some] by blast
  from 2 have r1: "r1 \<noteq> []" "hd r1 \<noteq> newline" "r2 = drop (runeWidth r1) r1"
    by (auto simp: matchAnyNotNL_def split: list.splits if_splits)
  from 1 have "s = ''github'' @ r1" by (simp add: matchLiteral_Some_iff)
  moreover from 3 r1(3) r3 t have "drop (runeWidth r1) r1 = ''com/'' @ x @ sep # y @ sep # rest"
    by (simp add: matchLiteral_Some_iff)
  ultimately show ?R using r1(1,2) x y by blast
next
  assume ?R
  then obtain r1 x y rest where s: "s = ''github'' @ r1" and r1: "r1 \<noteq> []" "hd r1 \<noteq> newline"
    and d: "drop (runeWidth r1) r1 = ''com/'' @ x @ sep # y @ sep # rest"
    and x: "x \<noteq> []" "newline \<notin> set x" and y: "y \<noteq> []" "newline \<notin> set y"
    by blast
  from s have 1: "matchLiteral ''github'' s = Some r1" by (simp add: matchLiteral_Some_iff)
  from r1 have 2: "matchAnyNotNL r1 = Some (drop (runeWidth r1) r1)"
    by (cases r1) (auto simp: matchAnyNotNL_def)
  from d have 3: "matchLiteral ''com/'' (drop (runeWidth r1) r1) = Some (x @ sep # y @ sep # rest)"
    by (simp add: matchLiteral_Some_iff)
  have "lazyGroupSep Some (y @ sep # rest) \<noteq> None"
    unfolding lazyGroupSep_matches [of Some] using y by blast
  then have "lazyGroupSep (lazyGroupSep Some) (x @ sep # y @ sep # rest) \<noteq> None"
    unfolding lazyGroupSep_matches [of "lazyGroupSep Some"] using x by blast
  with 1 2 3 show ?L by (simp add: githubRepoRe_def)
qed

text \<open>The expected case: the dot is a dot and the two groups are path segments.\<close>

lemma lazyMore_segment:
  "sep \<notin> set x \<Longrightarrow> newline \<notin> set x \<Longrightarrow> k t = Some r \<Longrightarrow> lazyMore k (x @ sep # t) = Some r"
  by (induction x) auto

lemma lazyGroupSep_segment:
  "x \<noteq> [] \<Longrightarrow> sep \<notin> set x \<Longrightarrow> newline \<notin> set x \<Longrightarrow> k t = Some r \<Longrightarrow>
     lazyGroupSep k (x @ sep # t) = Some r"
  by (cases x) (auto simp: lazyMore_segment)

lemma githubRepoRe_segments:
  assumes "x \<noteq> []" "sep \<notin> set x" "newline \<notin> set x"
    and "y \<noteq> []" "sep \<notin> set y" "newline \<notin> set y"
  shows "githubRepoRe (''github.com/'' @ x @ sep # y @ sep # rest) = Some rest"
proof -
  have "lazyGroupSep Some (y @ sep # rest) = Some rest"
    using assms(4-6) by (simp add: lazyGroupSep_segment)
  then have "lazyGroupSep (lazyGroupSep Some) (x @ sep # y @ sep # rest) = Some rest"
    using assms(1-3) by (simp add: lazyGroupSep_segment)
  then show ?thesis
    by (simp add: githubRepoRe_def matchLiteral_def matchAnyNotNL_def newline_def)
qed

lemma githubRepoRe_no_github: "\<not> HasPrefix s ''github'' \<Longrightarrow> githubRepoRe s = None"
  by (simp add: githubRepoRe_def matchLiteral_def)

lemma githubRepoRe_literal:
  "githubRepoRe (''github.com/'' @ s) = lazyGroupSep (lazyGroupSep Some) s"
  by (simp add: githubRepoRe_def matchLiteral_def matchAnyNotNL_def newline_def)

lemma githubRepoRe_literal_matches:
  "githubRepoRe (''github.com/'' @ s) \<noteq> None \<longleftrightarrow>
     (\<exists>x y rest. s = x @ sep # y @ sep # rest \<and>
        x \<noteq> [] \<and> newline \<notin> set x \<and> y \<noteq> [] \<and> newline \<notin> set y)"
  (is "?L \<longleftrightarrow> ?R")
proof
  assume ?L
  with githubRepoRe_literal [of s] have "lazyGroupSep (lazyGroupSep Some) s \<noteq> None"
    by simp
  then obtain x t where s: "s = x @ sep # t" and x: "x \<noteq> []" "newline \<notin> set x"
    and 5: "lazyGroupSep Some t \<noteq> None"
    unfolding lazyGroupSep_matches [of "lazyGroupSep Some"] by blast
  from 5 obtain y rest where t: "t = y @ sep # rest" and y: "y \<noteq> []" "newline \<notin> set y"
    unfolding lazyGroupSep_matches [of Some] by blast
  from s t x y show ?R by blast
next
  assume ?R
  then obtain x y rest where s: "s = x @ sep # y @ sep # rest"
    and x: "x \<noteq> []" "newline \<notin> set x" and y: "y \<noteq> []" "newline \<notin> set y"
    by blast
  have "lazyGroupSep Some (y @ sep # rest) \<noteq> None"
    unfolding lazyGroupSep_matches [of Some] using y by blast
  then have "lazyGroupSep (lazyGroupSep Some) (x @ sep # y @ sep # rest) \<noteq> None"
    unfolding lazyGroupSep_matches [of "lazyGroupSep Some"] using x by blast
  with s githubRepoRe_literal [of s] show ?L by simp
qed

section \<open>Properties of link resolution\<close>

subsection \<open>Paths made of entry names\<close>

lemma TrimPrefix_append: "TrimPrefix (p @ x) p = x"
  by (simp add: TrimPrefix_def HasPrefix_iff)

lemma splitOn_nosep: "c \<notin> set s \<Longrightarrow> splitOn c s = [s]"
  by (induction s) auto

lemma splitOn_nonempty: "splitOn c s \<noteq> []"
  by (induction s) (auto split: list.splits)

lemma splitOn_append: "splitOn c (a @ c # b) = splitOn c a @ splitOn c b"
proof (induction a)
  case Nil
  show ?case by simp
next
  case (Cons x a)
  obtain y ys where y: "splitOn c a = y # ys"
    using splitOn_nonempty [of c a] by (cases "splitOn c a") auto
  with Cons show ?case by simp
qed

lemma joinWith_snoc: "ns \<noteq> [] \<Longrightarrow> joinWith c (ns @ [f]) = joinWith c ns @ c # f"
  by (induction c ns rule: joinWith.induct) auto

lemma splitOn_joinWith:
  "ns \<noteq> [] \<Longrightarrow> \<forall>n \<in> set ns. c \<notin> set n \<Longrightarrow> splitOn c (joinWith c ns) = ns"
proof (induction c ns rule: joinWith.induct)
  case (1 c)
  then show ?case by simp
next
  case (2 c x)
  then show ?case by (simp add: splitOn_nosep)
next
  case (3 c x y ys)
  then show ?case by (simp add: splitOn_append splitOn_nosep)
qed

lemma upToLastSep:
  assumes "sep \<notin> set f"
  shows "rev (dropWhile (\<lambda>c. c \<noteq> sep) (rev (x @ sep # f))) = x @ [sep]"
proof -
  have "dropWhile (\<lambda>c. c \<noteq> sep) (rev f @ sep # rev x)
      = dropWhile (\<lambda>c. c \<noteq> sep) (sep # rev x)"
    by (rule dropWhile_append2) (use assms in auto)
  then show ?thesis by simp
qed

lemma upToLastSep_none:
  assumes "sep \<notin> set f"
  shows "rev (dropWhile (\<lambda>c. c \<noteq> sep) (rev f)) = []"
  using assms by (auto simp: dropWhile_eq_Nil_conv)


lemma foldl_cleanStep_names:
  "\<forall>n \<in> set ns. n \<noteq> [] \<and> n \<noteq> ''.'' \<and> n \<noteq> ''..'' \<Longrightarrow>
     foldl (cleanStep b) st ns = rev ns @ st"
  by (induction ns arbitrary: st) auto

lemma joinWith_Cons: "\<exists>t. joinWith c (d # ds) = d @ t"
  by (cases ds) auto

lemma Clean_names:
  assumes "dirs \<noteq> []"
    and "\<forall>n \<in> set dirs. n \<noteq> [] \<and> sep \<notin> set n \<and> n \<noteq> ''.'' \<and> n \<noteq> ''..''"
  shows "Clean (joinWith sep dirs @ [sep]) = joinWith sep dirs"
    and "Clean (sep # joinWith sep dirs @ [sep]) = sep # joinWith sep dirs"
proof -
  from assms(1) obtain d ds where dirs: "dirs = d # ds" by (cases dirs) auto
  with assms(2) obtain c cs where d: "d = c # cs" and c: "c \<noteq> sep"
    by (cases d) auto
  from joinWith_Cons [of sep d ds] d dirs obtain t where j: "joinWith sep dirs = c # t"
    by auto
  have split: "splitOn sep (joinWith sep dirs @ [sep]) = dirs @ [[]]"
    using splitOn_append [of sep "joinWith sep dirs" "[]"] splitOn_joinWith [OF assms(1)] assms(2)
    by simp
  have names: "\<forall>n \<in> set dirs. n \<noteq> [] \<and> n \<noteq> ''.'' \<and> n \<noteq> ''..''"
    using assms(2) by blast
  have fold1: "\<And>b. foldl (cleanStep b) [] (dirs @ [[]]) = rev dirs"
    by (simp add: foldl_cleanStep_names [OF names])
  have rooted1: "(case joinWith sep dirs @ [sep] of [] \<Rightarrow> False | x # _ \<Rightarrow> x = sep) = False"
    using j c by simp
  have st1: "foldl (cleanStep False) [] (splitOn sep (joinWith sep dirs @ [sep])) = rev dirs"
    by (simp only: split fold1)
  show "Clean (joinWith sep dirs @ [sep]) = joinWith sep dirs"
    unfolding Clean_def Let_def rooted1 st1 using assms(1) by simp
  have split2: "splitOn sep (sep # joinWith sep dirs @ [sep]) = [] # dirs @ [[]]"
    using splitOn_append [of sep "[]" "joinWith sep dirs @ [sep]"] split by simp
  have fold2: "\<And>b. foldl (cleanStep b) [] ([] # dirs @ [[]]) = rev dirs"
    by (simp add: foldl_cleanStep_names [OF names])
  have rooted2: "(case sep # joinWith sep dirs @ [sep] of [] \<Rightarrow> False | x # _ \<Rightarrow> x = sep)
      = True"
    by simp
  have st2: "foldl (cleanStep True) [] (splitOn sep (sep # joinWith sep dirs @ [sep]))
      = rev dirs"
    by (simp only: split2 fold2)
  show "Clean (sep # joinWith sep dirs @ [sep]) = sep # joinWith sep dirs"
    unfolding Clean_def Let_def rooted2 st2 by simp
qed


lemma Dir_names:
  assumes "\<forall>n \<in> set dirs. n \<noteq> [] \<and> sep \<notin> set n \<and> n \<noteq> ''.'' \<and> n \<noteq> ''..''"
    and "sep \<notin> set file"
  shows "Dir (joinWith sep (dirs @ [file])) = (if dirs = [] then ''.'' else joinWith sep dirs)"
    and "Dir (sep # joinWith sep (dirs @ [file]))
           = (if dirs = [] then [sep] else sep # joinWith sep dirs)"
proof -
  show "Dir (joinWith sep (dirs @ [file])) = (if dirs = [] then ''.'' else joinWith sep dirs)"
  proof (cases "dirs = []")
    case True
    then show ?thesis
      by (simp add: Dir_def upToLastSep_none [OF assms(2)] Clean_def)
  next
    case False
    have "rev (dropWhile (\<lambda>c. c \<noteq> sep) (rev (joinWith sep dirs @ sep # file)))
        = joinWith sep dirs @ [sep]"
      by (rule upToLastSep [OF assms(2)])
    with False show ?thesis
      by (simp only: Dir_def joinWith_snoc [OF False] Clean_names(1) [OF False assms(1)] if_False)
  qed
  show "Dir (sep # joinWith sep (dirs @ [file]))
           = (if dirs = [] then [sep] else sep # joinWith sep dirs)"
  proof (cases "dirs = []")
    case True
    have "rev (dropWhile (\<lambda>c. c \<noteq> sep) (rev ([] @ sep # file))) = [] @ [sep]"
      by (rule upToLastSep [OF assms(2)])
    with True show ?thesis by (simp add: Dir_def Clean_def)
  next
    case False
    have "rev (dropWhile (\<lambda>c. c \<noteq> sep) (rev ((sep # joinWith sep dirs) @ sep # file)))
        = (sep # joinWith sep dirs) @ [sep]"
      by (rule upToLastSep [OF assms(2)])
    with False show ?thesis
      by (simp only: Dir_def joinWith_snoc [OF False] Clean_names(2) [OF False assms(1)]
            if_False append_Cons)
  qed
qed

lemma Clean_eqI:
  assumes "p \<noteq> []" and "q \<noteq> []" and "hd p = hd q"
    and "\<And>b. foldl (cleanStep b) [] (splitOn sep p) = foldl (cleanStep b) [] (splitOn sep q)"
  shows "Clean p = Clean q"
  using assms by (cases p; cases q) (simp_all add: Clean_def Let_def del: splitOn.simps)

lemma Join_middle_cong:
  assumes "root \<noteq> []"
    and "\<And>b st. foldl (cleanStep b) st (splitOn sep x) = foldl (cleanStep b) st (splitOn sep x')"
  shows "Join [root, x, n] = Join [root, x', n]"
    and "Join [root, y, x, n] = Join [root, y, x', n]"
proof -
  have "Clean (root @ sep # x @ sep # n) = Clean (root @ sep # x' @ sep # n)"
    using assms(1)
    by (intro Clean_eqI) (simp_all add: splitOn_append assms(2) del: splitOn.simps)
  with assms(1) show "Join [root, x, n] = Join [root, x', n]" by simp
  have "Clean (root @ sep # y @ sep # x @ sep # n) = Clean (root @ sep # y @ sep # x' @ sep # n)"
    using assms(1)
    by (intro Clean_eqI) (simp_all add: splitOn_append assms(2) del: splitOn.simps)
  with assms(1) show "Join [root, y, x, n] = Join [root, y, x', n]" by simp
qed

lemma foldl_Dir_names:
  "foldl (cleanStep b) st (splitOn sep (if dirs = [] then ''.'' else joinWith sep dirs))
     = foldl (cleanStep b) st (splitOn sep (joinWith sep dirs))"
  "foldl (cleanStep b) st (splitOn sep (if dirs = [] then [sep] else sep # joinWith sep dirs))
     = foldl (cleanStep b) st (splitOn sep (joinWith sep dirs))"
proof -
  show "foldl (cleanStep b) st (splitOn sep (if dirs = [] then ''.'' else joinWith sep dirs))
     = foldl (cleanStep b) st (splitOn sep (joinWith sep dirs))"
    by (simp add: sep_def)
  have "splitOn sep (sep # joinWith sep dirs) = [] # splitOn sep (joinWith sep dirs)"
    by simp
  then show "foldl (cleanStep b) st (splitOn sep (if dirs = [] then [sep] else sep # joinWith sep dirs))
     = foldl (cleanStep b) st (splitOn sep (joinWith sep dirs))"
    by (simp del: splitOn.simps) simp
qed

subsection \<open>Resolution\<close>

lemma kinds_differ: "goProtoLibrary \<noteq> tsProtoLibrary"
  by (simp add: goProtoLibrary_def tsProtoLibrary_def)

lemma getLinkAndTarget_ts:
  "kind r = tsProtoLibrary \<Longrightarrow>
   getLinkAndTarget r workspaceRoot protoFile fs =
     (Inr (Join [workspaceRoot, Dir (TrimPrefix protoFile workspaceRoot), name r @ ''.d.ts''],
           Join [workspaceRoot, ''bazel-bin'', Dir (TrimPrefix protoFile workspaceRoot),
                 name r @ ''.d.ts'']), fs)"
  using kinds_differ by (simp add: getLinkAndTarget_def Let_def)

text \<open>
  C4.  The code takes the directory of the source file relative to the workspace root
  by removing the text of the root from the front of the file's path.  The walk hands
  over cleaned paths (\<^verbatim>\<open>filepath.Join\<close> of the directory walked and the entry
  name), so when the root is not written in cleaned form its text is not at the front of
  the path, nothing is removed, and the whole directory of the file is joined onto the
  root again.  For the rule named \<^verbatim>\<open>m_ts\<close> and the root \<^verbatim>\<open>./ws\<close> the walk
  hands over \<^verbatim>\<open>ws/pkg/m.proto\<close>; the relative directory is \<^verbatim>\<open>pkg\<close> and the
  link and target of the claim are \<^verbatim>\<open>ws/pkg/m_ts.d.ts\<close> and
  \<^verbatim>\<open>ws/bazel-bin/pkg/m_ts.d.ts\<close>, but resolution gives
  \<^verbatim>\<open>ws/ws/pkg/m_ts.d.ts\<close> and \<^verbatim>\<open>ws/bazel-bin/ws/pkg/m_ts.d.ts\<close>.  The same
  happens for the root \<^verbatim>\<open>/ws/./\<close> and the file \<^verbatim>\<open>/ws/pkg/m.proto\<close>.  For the
  root \<^verbatim>\<open>/ws\<close> of the claim's example resolution gives the paths of the claim,
  \<^verbatim>\<open>/ws/pkg/m_ts.d.ts\<close> and \<^verbatim>\<open>/ws/bazel-bin/pkg/m_ts.d.ts\<close>.
\<close>

theorem getLinkAndTarget_ts_unclean_root:
  "getLinkAndTarget example_ts_rule ''./ws'' ''ws/pkg/m.proto'' Map.empty
     = (Inr (''ws/ws/pkg/m_ts.d.ts'', ''ws/bazel-bin/ws/pkg/m_ts.d.ts''), Map.empty)
   \<and> Join [''./ws'', ''pkg'', name example_ts_rule @ ''.d.ts''] = ''ws/pkg/m_ts.d.ts''
   \<and> Join [''./ws'', ''bazel-bin'', ''pkg'', name example_ts_rule @ ''.d.ts'']
       = ''ws/bazel-bin/pkg/m_ts.d.ts''
   \<and> getLinkAndTarget example_ts_rule ''/ws/./'' ''/ws/pkg/m.proto'' Map.empty
     = (Inr (''/ws/ws/pkg/m_ts.d.ts'', ''/ws/bazel-bin/ws/pkg/m_ts.d.ts''), Map.empty)
   \<and> Join [''/ws/./'', ''pkg'', name example_ts_rule @ ''.d.ts''] = ''/ws/pkg/m_ts.d.ts''
   \<and> getLinkAndTarget example_ts_rule ''/ws'' ''/ws/pkg/m.proto'' Map.empty
     = (Inr (''/ws/pkg/m_ts.d.ts'', ''/ws/bazel-bin/pkg/m_ts.d.ts''), Map.empty)"
proof -
  have k: "kind example_ts_rule = tsProtoLibrary"
    by (simp add: example_ts_rule_def tsProtoLibrary_def)
  have n: "name example_ts_rule = ''m_ts''"
    by (simp add: example_ts_rule_def)
  show ?thesis
    unfolding getLinkAndTarget_ts [OF k] n by (simp add: path_eval)
qed

text \<open>
  Where resolution does give the link and the target in the relative directory: for a
  root whose text is at the front of the path of the source file, followed (after a
  separator, unless the root ends in one) by the names of the directories from the root
  to the file and the name of the file, the link and the target are in the directory
  these names give below the root and below \<^verbatim>\<open>bazel-bin\<close> in the root.  This is
  the form of the paths the walk hands over for a root written in cleaned form.
\<close>

lemma getLinkAndTarget_ts_under_root:
  assumes "kind r = tsProtoLibrary" and "workspaceRoot \<noteq> []"
    and "\<forall>n \<in> set dirs. n \<noteq> [] \<and> sep \<notin> set n \<and> n \<noteq> ''.'' \<and> n \<noteq> ''..''"
    and "sep \<notin> set file"
    and "protoFile = workspaceRoot @ joinWith sep (dirs @ [file]) \<or>
         protoFile = workspaceRoot @ sep # joinWith sep (dirs @ [file])"
  shows "getLinkAndTarget r workspaceRoot protoFile fs =
     (Inr (Join [workspaceRoot, joinWith sep dirs, name r @ ''.d.ts''],
           Join [workspaceRoot, ''bazel-bin'', joinWith sep dirs, name r @ ''.d.ts'']), fs)"
proof -
  let ?d = "Dir (TrimPrefix protoFile workspaceRoot)"
  have fold: "\<And>b st. foldl (cleanStep b) st (splitOn sep ?d)
      = foldl (cleanStep b) st (splitOn sep (joinWith sep dirs))"
    using assms(5)
  proof
    assume "protoFile = workspaceRoot @ joinWith sep (dirs @ [file])"
    then have "?d = (if dirs = [] then ''.'' else joinWith sep dirs)"
      by (simp only: TrimPrefix_append Dir_names(1) [OF assms(3,4)])
    then show "\<And>b st. foldl (cleanStep b) st (splitOn sep ?d)
      = foldl (cleanStep b) st (splitOn sep (joinWith sep dirs))"
      by (simp only: foldl_Dir_names(1))
  next
    assume "protoFile = workspaceRoot @ sep # joinWith sep (dirs @ [file])"
    then have "?d = (if dirs = [] then [sep] else sep # joinWith sep dirs)"
      by (simp only: TrimPrefix_append Dir_names(2) [OF assms(3,4)])
    then show "\<And>b st. foldl (cleanStep b) st (splitOn sep ?d)
      = foldl (cleanStep b) st (splitOn sep (joinWith sep dirs))"
      by (simp only: foldl_Dir_names(2))
  qed
  note j = Join_middle_cong [OF assms(2) fold]
  show ?thesis
    unfolding getLinkAndTarget_ts [OF assms(1)]
    by (simp only: j(1) [of "name r @ ''.d.ts''"] j(2) [of "''bazel-bin''" "name r @ ''.d.ts''"])
qed

lemma getLinkAndTarget_ts_under_root_example:
  "getLinkAndTarget example_ts_rule ''/ws'' ''/ws/pkg/m.proto'' fs =
     (Inr (Join [''/ws'', ''pkg'', ''m_ts.d.ts''],
           Join [''/ws'', ''bazel-bin'', ''pkg'', ''m_ts.d.ts'']), fs)"
  using getLinkAndTarget_ts_under_root
    [of example_ts_rule "''/ws''" "[''pkg'']" "''m.proto''" "''/ws/pkg/m.proto''" fs]
  by (simp add: example_ts_rule_def tsProtoLibrary_def sep_def)

text \<open>
  C10.  Two \<^verbatim>\<open>ts_proto_library\<close> rules with the same name resolve to the same
  link and target for the same workspace root and source file, whatever their import
  paths (and the rules they consume) are, and leave the file system as it is: only the
  root, the file and the rule name enter the result.
\<close>

theorem getLinkAndTarget_ts_ignores_importPath:
  assumes "kind r1 = tsProtoLibrary" and "kind r2 = tsProtoLibrary" and "name r1 = name r2"
  shows "getLinkAndTarget r1 workspaceRoot protoFile fs =
         getLinkAndTarget r2 workspaceRoot protoFile fs"
  using assms by (simp add: getLinkAndTarget_ts)

theorem getLinkAndTarget_ts_ignores_importPath_witness:
  "kind \<lparr>kind = ''ts_proto_library'', name = ''m_ts'', protoRuleName = ''m'', importPath = []\<rparr>
     = tsProtoLibrary
   \<and> kind \<lparr>kind = ''ts_proto_library'', name = ''m_ts'', protoRuleName = ''m'',
            importPath = ''github.com/acme/proj/pkg/m''\<rparr> = tsProtoLibrary
   \<and> getLinkAndTarget
        \<lparr>kind = ''ts_proto_library'', name = ''m_ts'', protoRuleName = ''m'', importPath = []\<rparr>
        ''/ws'' ''/ws/pkg/m.proto'' Map.empty
      = getLinkAndTarget
        \<lparr>kind = ''ts_proto_library'', name = ''m_ts'', protoRuleName = ''m'',
         importPath = ''github.com/acme/proj/pkg/m''\<rparr>
        ''/ws'' ''/ws/pkg/m.proto'' Map.empty"
  using getLinkAndTarget_ts_ignores_importPath
    [of "\<lparr>kind = ''ts_proto_library'', name = ''m_ts'', protoRuleName = ''m'',
          importPath = []\<rparr>"
        "\<lparr>kind = ''ts_proto_library'', name = ''m_ts'', protoRuleName = ''m'',
          importPath = ''github.com/acme/proj/pkg/m''\<rparr>"
        "''/ws''" "''/ws/pkg/m.proto''" Map.empty]
  by (simp add: tsProtoLibrary_def)

lemma getLinkAndTarget_go:
  "kind r = goProtoLibrary \<Longrightarrow>
   getLinkAndTarget r workspaceRoot protoFile fs =
     (if ReplaceAllLiteralString_empty (importPath r) = importPath r
      then (Inl (NoWorkspaceRelativePath (importPath r)), fs)
      else
        (case MkdirAll (goLinkDir r workspaceRoot) fs of
           (False, fs1) \<Rightarrow> (Inl (CouldNotMakeDirectory (goLinkDir r workspaceRoot)), fs1)
         | (True, fs1) \<Rightarrow>
             (Inr (resolvedLink r workspaceRoot protoFile,
                   resolvedTarget r workspaceRoot protoFile), fs1)))"
  by (simp add: getLinkAndTarget_def Let_def goLinkDir_def goLinkFile_def resolvedLink_def
        resolvedTarget_def del: Join.simps split: prod.splits bool.splits)

lemma getLinkAndTarget_ts_resolved:
  "kind r = tsProtoLibrary \<Longrightarrow>
   getLinkAndTarget r workspaceRoot protoFile fs =
     (Inr (resolvedLink r workspaceRoot protoFile, resolvedTarget r workspaceRoot protoFile), fs)"
  using kinds_differ
  by (simp add: getLinkAndTarget_ts resolvedLink_def resolvedTarget_def del: Join.simps)

text \<open>
  C6 (as amended).  For a \<^verbatim>\<open>go_proto_library\<close> rule, resolution fails with the
  no-workspace-relative-path error exactly when replacing the matches of the pattern in
  the import path changes nothing.  That is the case for every import path that does
  not start with \<^verbatim>\<open>github\<close>; for an import path that starts with
  \<^verbatim>\<open>github.com/\<close> it is the case exactly when what follows does not start with
  two non-empty groups without line feeds, each closed by a separator; and an import
  path \<^verbatim>\<open>github.com/\<close>, two non-empty segments each followed by a separator, and
  a rest is stripped to the rest.  When the replacement changes the import path,
  resolution makes the directory that is the workspace root joined with the stripped
  import path: it fails with the could-not-make-directory error when that fails and
  otherwise succeeds with the link in that directory.
\<close>

theorem getLinkAndTarget_go_import_path:
  assumes "kind r = goProtoLibrary"
  shows "(fst (getLinkAndTarget r workspaceRoot protoFile fs)
            = Inl (NoWorkspaceRelativePath (importPath r))
          \<longleftrightarrow> ReplaceAllLiteralString_empty (importPath r) = importPath r)
       \<and> (\<not> HasPrefix (importPath r) ''github''
          \<longrightarrow> ReplaceAllLiteralString_empty (importPath r) = importPath r)
       \<and> (\<forall>s. importPath r = ''github.com/'' @ s \<longrightarrow>
            (ReplaceAllLiteralString_empty (importPath r) = importPath r
             \<longleftrightarrow> \<not> (\<exists>x y rest. s = x @ sep # y @ sep # rest \<and>
                      x \<noteq> [] \<and> newline \<notin> set x \<and> y \<noteq> [] \<and> newline \<notin> set y)))
       \<and> (\<forall>x y rest. importPath r = ''github.com/'' @ x @ sep # y @ sep # rest \<and>
             x \<noteq> [] \<and> sep \<notin> set x \<and> newline \<notin> set x \<and>
             y \<noteq> [] \<and> sep \<notin> set y \<and> newline \<notin> set y
             \<longrightarrow> ReplaceAllLiteralString_empty (importPath r) = rest)
       \<and> (ReplaceAllLiteralString_empty (importPath r) \<noteq> importPath r \<longrightarrow>
            getLinkAndTarget r workspaceRoot protoFile fs =
              (if fst (MkdirAll (Join [workspaceRoot,
                                       ReplaceAllLiteralString_empty (importPath r)]) fs)
               then Inr (Join [Join [workspaceRoot,
                                     ReplaceAllLiteralString_empty (importPath r)],
                               TrimSuffix (Base protoFile) ''.proto'' @ ''.pb.go''],
                         resolvedTarget r workspaceRoot protoFile)
               else Inl (CouldNotMakeDirectory
                           (Join [workspaceRoot,
                                  ReplaceAllLiteralString_empty (importPath r)])),
               snd (MkdirAll (Join [workspaceRoot,
                                    ReplaceAllLiteralString_empty (importPath r)]) fs)))"
proof (intro conjI)
  show "fst (getLinkAndTarget r workspaceRoot protoFile fs)
            = Inl (NoWorkspaceRelativePath (importPath r))
          \<longleftrightarrow> ReplaceAllLiteralString_empty (importPath r) = importPath r"
    by (simp add: getLinkAndTarget_go [OF assms] split: prod.splits bool.splits)
  show "\<not> HasPrefix (importPath r) ''github''
          \<longrightarrow> ReplaceAllLiteralString_empty (importPath r) = importPath r"
    unfolding ReplaceAll_noop_iff using githubRepoRe_no_github by blast
  show "\<forall>s. importPath r = ''github.com/'' @ s \<longrightarrow>
            (ReplaceAllLiteralString_empty (importPath r) = importPath r
             \<longleftrightarrow> \<not> (\<exists>x y rest. s = x @ sep # y @ sep # rest \<and>
                      x \<noteq> [] \<and> newline \<notin> set x \<and> y \<noteq> [] \<and> newline \<notin> set y))"
  proof (intro allI impI)
    fix s assume "importPath r = ''github.com/'' @ s"
    then show "ReplaceAllLiteralString_empty (importPath r) = importPath r
             \<longleftrightarrow> \<not> (\<exists>x y rest. s = x @ sep # y @ sep # rest \<and>
                      x \<noteq> [] \<and> newline \<notin> set x \<and> y \<noteq> [] \<and> newline \<notin> set y)"
      unfolding ReplaceAll_noop_iff using githubRepoRe_literal_matches [of s] by auto
  qed
  show "\<forall>x y rest. importPath r = ''github.com/'' @ x @ sep # y @ sep # rest \<and>
             x \<noteq> [] \<and> sep \<notin> set x \<and> newline \<notin> set x \<and>
             y \<noteq> [] \<and> sep \<notin> set y \<and> newline \<notin> set y
             \<longrightarrow> ReplaceAllLiteralString_empty (importPath r) = rest"
    using githubRepoRe_segments
    by (auto simp: ReplaceAllLiteralString_empty_def simp del: append.simps)
  show "ReplaceAllLiteralString_empty (importPath r) \<noteq> importPath r \<longrightarrow>
            getLinkAndTarget r workspaceRoot protoFile fs =
              (if fst (MkdirAll (Join [workspaceRoot,
                                       ReplaceAllLiteralString_empty (importPath r)]) fs)
               then Inr (Join [Join [workspaceRoot,
                                     ReplaceAllLiteralString_empty (importPath r)],
                               TrimSuffix (Base protoFile) ''.proto'' @ ''.pb.go''],
                         resolvedTarget r workspaceRoot protoFile)
               else Inl (CouldNotMakeDirectory
                           (Join [workspaceRoot,
                                  ReplaceAllLiteralString_empty (importPath r)])),
               snd (MkdirAll (Join [workspaceRoot,
                                    ReplaceAllLiteralString_empty (importPath r)]) fs))"
    using assms
    by (simp add: getLinkAndTarget_go [OF assms] resolvedLink_def goLinkDir_def goLinkFile_def
          del: Join.simps split: prod.splits bool.splits)
qed

text \<open>Evaluation of the file system calls on concrete file systems.\<close>

lemma Stat_eval:
  "Stat fs path =
     (case fs path of
        Some (SymbolicLink t) \<Rightarrow>
          followLinks 39 fs (if HasPrefix t [sep] then Clean t else Join [Dir path, t])
      | other \<Rightarrow> other)"
proof -
  have "followLinks (Suc 39) fs path =
     (case fs path of
        Some (SymbolicLink t) \<Rightarrow>
          followLinks 39 fs (if HasPrefix t [sep] then Clean t else Join [Dir path, t])
      | other \<Rightarrow> other)"
    by (rule followLinks.simps(2))
  moreover have "Suc 39 = (40::nat)" by simp
  ultimately show ?thesis unfolding Stat_def by (simp only:)
qed

lemmas fs_eval = Stat_eval Lstat_def Readlink_def parentIsDir_def Mkdir_def Symlink_def
  parentEnd_def workspace_with_def workspace_two_def

lemmas go_eval = ReplaceAllLiteralString_empty_def githubRepoRe_def matchLiteral_def
  matchAnyNotNL_def newline_def goLinkDir_def goLinkFile_def resolvedLink_def
  resolvedTarget_def


lemma example_strip:
  "ReplaceAllLiteralString_empty ''github.com/acme/proj/pkg/m'' = ''pkg/m''"
  by (simp add: go_eval sep_def)

lemma example_go_paths:
  "goLinkDir example_go_rule ''/ws'' = ''/ws/pkg/m''"
  "resolvedLink example_go_rule ''/ws'' ''/ws/pkg/m.proto'' = ''/ws/pkg/m/m.pb.go''"
  "resolvedTarget example_go_rule ''/ws'' ''/ws/pkg/m.proto''
     = ''/ws/bazel-bin/pkg/m_go_/github.com/acme/proj/pkg/m/m.pb.go''"
  by (simp_all add: example_go_rule_def goLinkDir_def resolvedLink_def resolvedTarget_def goLinkFile_def
        example_strip goProtoLibrary_def path_eval)

lemma MkdirAll_blocked:
  "MkdirAll ''/ws/pkg/m'' ((workspace_with bf)(''/ws/pkg/m'' \<mapsto> RegularFile None))
     = (False, (workspace_with bf)(''/ws/pkg/m'' \<mapsto> RegularFile None))"
  by (subst MkdirAll.simps) (simp add: fs_eval)

lemma MkdirAll_example:
  "MkdirAll ''/ws/pkg/m'' (workspace_with bf)
     = (True, (workspace_with bf)(''/ws/pkg/m'' \<mapsto> Directory))"
  apply (subst MkdirAll.simps)
  apply (simp add: fs_eval path_eval)
  apply (subst MkdirAll.simps)
  apply (simp add: fs_eval path_eval)
  done

lemma example_go_kind: "kind example_go_rule = goProtoLibrary"
  by (simp add: example_go_rule_def goProtoLibrary_def)

lemma example_go_strips:
  "ReplaceAllLiteralString_empty (importPath example_go_rule) = ''pkg/m''"
  by (simp add: example_go_rule_def example_strip)

text \<open>Against C6 as stated: the import path of the example is stripped, yet
  resolution fails, because a regular file is where the link's directory has to be.\<close>

theorem getLinkAndTarget_go_mkdir_counterexample:
  "kind example_go_rule = goProtoLibrary
   \<and> ReplaceAllLiteralString_empty (importPath example_go_rule) \<noteq> importPath example_go_rule
   \<and> getLinkAndTarget example_go_rule ''/ws'' ''/ws/pkg/m.proto''
        ((workspace_with example_descriptor)(''/ws/pkg/m'' \<mapsto> RegularFile None))
      = (Inl (CouldNotMakeDirectory ''/ws/pkg/m''),
         (workspace_with example_descriptor)(''/ws/pkg/m'' \<mapsto> RegularFile None))"
  by (simp add: getLinkAndTarget_go [OF example_go_kind] example_go_strips example_go_paths
        MkdirAll_blocked example_go_kind)
     (simp add: example_go_rule_def)

theorem getLinkAndTarget_go_import_path_witness:
  "kind example_go_rule = goProtoLibrary
   \<and> ReplaceAllLiteralString_empty (importPath example_go_rule) = ''pkg/m''
   \<and> getLinkAndTarget example_go_rule ''/ws'' ''/ws/pkg/m.proto''
        (workspace_with example_descriptor)
      = (Inr (''/ws/pkg/m/m.pb.go'',
              ''/ws/bazel-bin/pkg/m_go_/github.com/acme/proj/pkg/m/m.pb.go''),
         (workspace_with example_descriptor)(''/ws/pkg/m'' \<mapsto> Directory))"
proof -
  have ip: "importPath example_go_rule
      = ''github.com/'' @ ''acme'' @ sep # ''proj'' @ sep # ''pkg/m''"
    by (simp add: example_go_rule_def sep_def)
  note t = getLinkAndTarget_go_import_path [OF example_go_kind, of "''/ws''" "''/ws/pkg/m.proto''"
      "workspace_with example_descriptor"]
  from t have a: "\<forall>x y rest. importPath example_go_rule = ''github.com/'' @ x @ sep # y @ sep # rest \<and>
             x \<noteq> [] \<and> sep \<notin> set x \<and> newline \<notin> set x \<and>
             y \<noteq> [] \<and> sep \<notin> set y \<and> newline \<notin> set y
             \<longrightarrow> ReplaceAllLiteralString_empty (importPath example_go_rule) = rest"
    by blast
  have strip: "ReplaceAllLiteralString_empty (importPath example_go_rule) = ''pkg/m''"
    by (rule a [rule_format, of "''acme''" "''proj''" "''pkg/m''"])
       (simp add: ip sep_def newline_def)
  then have ne: "ReplaceAllLiteralString_empty (importPath example_go_rule)
      \<noteq> importPath example_go_rule"
    by (simp add: example_go_rule_def)
  have j: "Join [''/ws'', ''pkg/m''] = ''/ws/pkg/m''"
    "Join [''/ws/pkg/m'', TrimSuffix (Base ''/ws/pkg/m.proto'') ''.proto'' @ ''.pb.go'']
       = ''/ws/pkg/m/m.pb.go''"
    by (simp_all add: path_eval)
  from t ne have "getLinkAndTarget example_go_rule ''/ws'' ''/ws/pkg/m.proto''
        (workspace_with example_descriptor) =
      (if fst (MkdirAll (Join [''/ws'', ReplaceAllLiteralString_empty (importPath example_go_rule)])
                 (workspace_with example_descriptor))
       then Inr (Join [Join [''/ws'', ReplaceAllLiteralString_empty (importPath example_go_rule)],
                       TrimSuffix (Base ''/ws/pkg/m.proto'') ''.proto'' @ ''.pb.go''],
                 resolvedTarget example_go_rule ''/ws'' ''/ws/pkg/m.proto'')
       else Inl (CouldNotMakeDirectory
                   (Join [''/ws'', ReplaceAllLiteralString_empty (importPath example_go_rule)])),
       snd (MkdirAll (Join [''/ws'', ReplaceAllLiteralString_empty (importPath example_go_rule)])
              (workspace_with example_descriptor)))"
    by blast
  then have "getLinkAndTarget example_go_rule ''/ws'' ''/ws/pkg/m.proto''
        (workspace_with example_descriptor)
      = (Inr (''/ws/pkg/m/m.pb.go'',
              ''/ws/bazel-bin/pkg/m_go_/github.com/acme/proj/pkg/m/m.pb.go''),
         (workspace_with example_descriptor)(''/ws/pkg/m'' \<mapsto> Directory))"
    unfolding strip j by (simp add: MkdirAll_example example_go_paths del: Join.simps)
  with strip example_go_kind show ?thesis by simp
qed

text \<open>
  C3 (as amended).  For the descriptor of the worked example, the source file
  \<^verbatim>\<open>/ws/pkg/m.proto\<close> and the workspace root \<^verbatim>\<open>/ws\<close>: parsing gives an index
  in which the file has exactly one rule, the \<^verbatim>\<open>go_proto_library\<close> rule
  \<^verbatim>\<open>m_go\<close>.  Resolving that rule first makes the link's directory
  \<^verbatim>\<open>/ws/pkg/m\<close>.  When that succeeds the result is the link
  \<^verbatim>\<open>/ws/pkg/m/m.pb.go\<close> and the target
  \<^verbatim>\<open>/ws/bazel-bin/pkg/m_go_/github.com/acme/proj/pkg/m/m.pb.go\<close>, in the file
  system with the directory made; when it fails the result is the
  could-not-make-directory error.  It succeeds, changing nothing, when the directory is
  there already.
\<close>

theorem example_go_link_and_target:
  assumes "ReadFile fs ''/ws/pkg/BUILD'' = Some (Some example_descriptor)"
  shows "parseBuildFile fs ''/ws/pkg/BUILD''
           = Inr \<lparr>protoFileToRule = [''m.proto'' \<mapsto> ''m''],
                  protoRuleToLangProtoRules = [''m'' \<mapsto> [example_go_rule]]\<rparr>
       \<and> getLangProtoRulesForProto
           \<lparr>protoFileToRule = [''m.proto'' \<mapsto> ''m''],
            protoRuleToLangProtoRules = [''m'' \<mapsto> [example_go_rule]]\<rparr> ''/ws/pkg/m.proto''
           = Some [example_go_rule]
       \<and> getLinkAndTarget example_go_rule ''/ws'' ''/ws/pkg/m.proto'' fs
           = (if fst (MkdirAll ''/ws/pkg/m'' fs)
              then Inr (''/ws/pkg/m/m.pb.go'',
                        ''/ws/bazel-bin/pkg/m_go_/github.com/acme/proj/pkg/m/m.pb.go'')
              else Inl (CouldNotMakeDirectory ''/ws/pkg/m''),
              snd (MkdirAll ''/ws/pkg/m'' fs))
       \<and> (Stat fs ''/ws/pkg/m'' = Some Directory \<longrightarrow>
            getLinkAndTarget example_go_rule ''/ws'' ''/ws/pkg/m.proto'' fs
              = (Inr (''/ws/pkg/m/m.pb.go'',
                      ''/ws/bazel-bin/pkg/m_go_/github.com/acme/proj/pkg/m/m.pb.go''), fs))"
proof (intro conjI)
  show "parseBuildFile fs ''/ws/pkg/BUILD''
           = Inr \<lparr>protoFileToRule = [''m.proto'' \<mapsto> ''m''],
                  protoRuleToLangProtoRules = [''m'' \<mapsto> [example_go_rule]]\<rparr>"
    by (simp add: parseBuildFile_read [OF assms(1)] example_descriptor_def descr_eval
          example_go_rule_def)
  show "getLangProtoRulesForProto
           \<lparr>protoFileToRule = [''m.proto'' \<mapsto> ''m''],
            protoRuleToLangProtoRules = [''m'' \<mapsto> [example_go_rule]]\<rparr> ''/ws/pkg/m.proto''
           = Some [example_go_rule]"
    by (simp add: getLangProtoRulesForProto_def path_eval)
  have ne: "ReplaceAllLiteralString_empty (importPath example_go_rule)
      \<noteq> importPath example_go_rule"
    by (simp add: example_go_strips) (simp add: example_go_rule_def)
  show res: "getLinkAndTarget example_go_rule ''/ws'' ''/ws/pkg/m.proto'' fs
           = (if fst (MkdirAll ''/ws/pkg/m'' fs)
              then Inr (''/ws/pkg/m/m.pb.go'',
                        ''/ws/bazel-bin/pkg/m_go_/github.com/acme/proj/pkg/m/m.pb.go'')
              else Inl (CouldNotMakeDirectory ''/ws/pkg/m''),
              snd (MkdirAll ''/ws/pkg/m'' fs))"
    using ne
    by (simp add: getLinkAndTarget_go [OF example_go_kind] example_go_paths
          split: prod.splits bool.splits)
  show "Stat fs ''/ws/pkg/m'' = Some Directory \<longrightarrow>
            getLinkAndTarget example_go_rule ''/ws'' ''/ws/pkg/m.proto'' fs
              = (Inr (''/ws/pkg/m/m.pb.go'',
                      ''/ws/bazel-bin/pkg/m_go_/github.com/acme/proj/pkg/m/m.pb.go''), fs)"
  proof
    assume d: "Stat fs ''/ws/pkg/m'' = Some Directory"
    have "MkdirAll ''/ws/pkg/m'' fs = (True, fs)"
      by (subst MkdirAll.simps) (simp add: d)
    with res show "getLinkAndTarget example_go_rule ''/ws'' ''/ws/pkg/m.proto'' fs
              = (Inr (''/ws/pkg/m/m.pb.go'',
                      ''/ws/bazel-bin/pkg/m_go_/github.com/acme/proj/pkg/m/m.pb.go''), fs)"
      by simp
  qed
qed


lemma MkdirAll_dangling:
  "MkdirAll ''/ws/pkg/m'' ((workspace_with bf)(''/ws/pkg/m'' \<mapsto> SymbolicLink ''/gone''))
     = (False, (workspace_with bf)(''/ws/pkg/m'' \<mapsto> SymbolicLink ''/gone''))"
proof -
  let ?fs = "(workspace_with bf)(''/ws/pkg/m'' \<mapsto> SymbolicLink ''/gone'')"
  have "followLinks 39 ?fs ''/gone'' = ?fs ''/gone''"
    by (rule followLinks_nonlink) (simp add: workspace_with_def)
  then have gone: "followLinks 39 ?fs ''/gone'' = None"
    by (simp add: workspace_with_def)
  have s1: "Stat ?fs ''/ws/pkg/m'' = None"
    by (simp add: Stat_eval gone path_eval)
  have s2: "Stat ?fs ''/ws/pkg'' = Some Directory"
    by (subst Stat_nonlink) (simp_all add: workspace_with_def)
  show ?thesis
    apply (subst MkdirAll.simps)
    apply (simp add: s1 parentEnd_def path_eval)
    apply (subst MkdirAll.simps)
    apply (simp add: s2 Mkdir_def Lstat_def)
    done
qed


text \<open>Against C3 as stated: the descriptor, the source file and the root of the example,
  in a workspace where \<^verbatim>\<open>/ws/pkg/m\<close> is a symbolic link to a path that does not
  exist.  The directory of the link cannot be made and resolution gives an error, not the
  two paths.\<close>

theorem example_go_dangling_link_counterexample:
  "parseBuildFile
     ((workspace_with example_descriptor)(''/ws/pkg/m'' \<mapsto> SymbolicLink ''/gone''))
     ''/ws/pkg/BUILD''
     = Inr \<lparr>protoFileToRule = [''m.proto'' \<mapsto> ''m''],
            protoRuleToLangProtoRules = [''m'' \<mapsto> [example_go_rule]]\<rparr>
   \<and> getLangProtoRulesForProto
       \<lparr>protoFileToRule = [''m.proto'' \<mapsto> ''m''],
        protoRuleToLangProtoRules = [''m'' \<mapsto> [example_go_rule]]\<rparr> ''/ws/pkg/m.proto''
       = Some [example_go_rule]
   \<and> getLinkAndTarget example_go_rule ''/ws'' ''/ws/pkg/m.proto''
        ((workspace_with example_descriptor)(''/ws/pkg/m'' \<mapsto> SymbolicLink ''/gone''))
      = (Inl (CouldNotMakeDirectory ''/ws/pkg/m''),
         (workspace_with example_descriptor)(''/ws/pkg/m'' \<mapsto> SymbolicLink ''/gone''))"
proof -
  let ?fs = "(workspace_with example_descriptor)(''/ws/pkg/m'' \<mapsto> SymbolicLink ''/gone'')"
  have read: "ReadFile ?fs ''/ws/pkg/BUILD'' = Some (Some example_descriptor)"
    by (rule ReadFile_regular) (simp add: workspace_with_def)
  have ne: "ReplaceAllLiteralString_empty (importPath example_go_rule)
      \<noteq> importPath example_go_rule"
    by (simp add: example_go_strips) (simp add: example_go_rule_def)
  have "parseBuildFile ?fs ''/ws/pkg/BUILD''
     = Inr \<lparr>protoFileToRule = [''m.proto'' \<mapsto> ''m''],
            protoRuleToLangProtoRules = [''m'' \<mapsto> [example_go_rule]]\<rparr>"
    by (subst parseBuildFile_read [OF read])
       (simp add: example_descriptor_def descr_eval example_go_rule_def)
  moreover have "getLangProtoRulesForProto
       \<lparr>protoFileToRule = [''m.proto'' \<mapsto> ''m''],
        protoRuleToLangProtoRules = [''m'' \<mapsto> [example_go_rule]]\<rparr> ''/ws/pkg/m.proto''
       = Some [example_go_rule]"
    by (simp add: getLangProtoRulesForProto_def path_eval)
  moreover have "getLinkAndTarget example_go_rule ''/ws'' ''/ws/pkg/m.proto'' ?fs
      = (Inl (CouldNotMakeDirectory ''/ws/pkg/m''), ?fs)"
    using ne
    by (simp add: getLinkAndTarget_go [OF example_go_kind] example_go_paths MkdirAll_dangling)
  ultimately show ?thesis by simp
qed

theorem example_go_link_and_target_witness:
  "ReadFile (workspace_with example_descriptor) ''/ws/pkg/BUILD''
     = Some (Some example_descriptor)
   \<and> MkdirAll ''/ws/pkg/m'' (workspace_with example_descriptor)
     = (True, (workspace_with example_descriptor)(''/ws/pkg/m'' \<mapsto> Directory))
   \<and> getLinkAndTarget example_go_rule ''/ws'' ''/ws/pkg/m.proto''
       (workspace_with example_descriptor)
     = (Inr (''/ws/pkg/m/m.pb.go'',
             ''/ws/bazel-bin/pkg/m_go_/github.com/acme/proj/pkg/m/m.pb.go''),
        (workspace_with example_descriptor)(''/ws/pkg/m'' \<mapsto> Directory))"
  using example_go_link_and_target [OF ReadFile_workspace_with]
  by (simp add: ReadFile_workspace_with MkdirAll_example)

section \<open>Properties of reconciliation\<close>

text \<open>
  C2.  When something is at the link path already: if it is not a symbolic link the
  step fails with the not-a-symlink error; if it is a symbolic link whose recorded
  target is the computed target (equal as strings) the step counts it as up to date;
  if the recorded target is another string the step fails with the
  points-to-a-different-location error.  In all three cases the file system is left
  exactly as it was.
\<close>

theorem reconcile_existing_path:
  "Lstat fs link = Some s \<Longrightarrow>
   reconcile link linkTarget (res, fs) =
     (case s of
        SymbolicLink existingTarget \<Rightarrow>
          (if existingTarget = linkTarget
           then (None, res\<lparr>upToDate := upToDate res + 1\<rparr>, fs)
           else (Some (PointsElsewhere link), res, fs))
      | _ \<Rightarrow> (Some (NotASymlink link), res, fs))"
  by (cases s) (simp_all add: reconcile_def Lstat_def Readlink_def)

theorem reconcile_existing_path_witness:
  "Lstat [''/ws/pkg/m_ts.d.ts'' \<mapsto> SymbolicLink ''/elsewhere/m_ts.d.ts'']
      ''/ws/pkg/m_ts.d.ts'' = Some (SymbolicLink ''/elsewhere/m_ts.d.ts'')
   \<and> reconcile ''/ws/pkg/m_ts.d.ts'' ''/ws/bazel-bin/pkg/m_ts.d.ts''
        (\<lparr>created = 0, upToDate = 0\<rparr>,
         [''/ws/pkg/m_ts.d.ts'' \<mapsto> SymbolicLink ''/elsewhere/m_ts.d.ts''])
      = (Some (PointsElsewhere ''/ws/pkg/m_ts.d.ts''), \<lparr>created = 0, upToDate = 0\<rparr>,
         [''/ws/pkg/m_ts.d.ts'' \<mapsto> SymbolicLink ''/elsewhere/m_ts.d.ts''])"
  using reconcile_existing_path
    [of "[''/ws/pkg/m_ts.d.ts'' \<mapsto> SymbolicLink ''/elsewhere/m_ts.d.ts'']"
        "''/ws/pkg/m_ts.d.ts''" "SymbolicLink ''/elsewhere/m_ts.d.ts''"
        "''/ws/bazel-bin/pkg/m_ts.d.ts''" "\<lparr>created = 0, upToDate = 0\<rparr>"]
  by (simp add: Lstat_def)

section \<open>Properties of a pass\<close>

subsection \<open>The file system only grows\<close>

lemma followLinks_mono:
  "fs \<subseteq>\<^sub>m F \<Longrightarrow> followLinks n fs path = Some x \<Longrightarrow> followLinks n F path = Some x"
proof (induction n arbitrary: path)
  case 0
  from 0(2) obtain y where y: "fs path = Some y" by (cases "fs path") auto
  with 0(1) have "F path = Some y" by (auto simp: map_le_def dom_def)
  with y 0(2) show ?case by (cases y) auto
next
  case (Suc n)
  from Suc(3) obtain y where y: "fs path = Some y" by (cases "fs path") auto
  with Suc(2) have F: "F path = Some y" by (auto simp: map_le_def dom_def)
  show ?case
  proof (cases y)
    case (SymbolicLink t)
    with y Suc(3) have "followLinks n fs
        (if HasPrefix t [sep] then Clean t else Join [Dir path, t]) = Some x"
      by (simp del: Join.simps)
    from Suc.IH [OF Suc(2) this] F SymbolicLink show ?thesis by (simp del: Join.simps)
  qed (use y F Suc(3) in auto)
qed

lemma Stat_mono: "fs \<subseteq>\<^sub>m F \<Longrightarrow> Stat fs path = Some x \<Longrightarrow> Stat F path = Some x"
  unfolding Stat_def by (rule followLinks_mono)

lemma Stat_None_mono: "fs \<subseteq>\<^sub>m F \<Longrightarrow> Stat F path = None \<Longrightarrow> Stat fs path = None"
  using Stat_mono [of fs F path] by (cases "Stat fs path") auto

lemma ReadFile_mono: "fs \<subseteq>\<^sub>m F \<Longrightarrow> Stat fs path \<noteq> None \<Longrightarrow> ReadFile F path = ReadFile fs path"
  using Stat_mono [of fs F path] by (auto simp: ReadFile_def)

lemma parseBuildFile_mono:
  "fs \<subseteq>\<^sub>m F \<Longrightarrow> Stat fs path \<noteq> None \<Longrightarrow> parseBuildFile F path = parseBuildFile fs path"
  by (simp add: parseBuildFile_def ReadFile_mono)

lemma parseBuildFile_Inr_Stat: "parseBuildFile fs path = Inr b \<Longrightarrow> Stat fs path \<noteq> None"
  by (auto simp: parseBuildFile_def ReadFile_def split: option.splits)

lemma Stat_Directory: "fs path = Some Directory \<Longrightarrow> Stat fs path = Some Directory"
  by (simp add: Stat_nonlink)

lemma Mkdir_Some:
  "Mkdir path fs = Some fs1 \<Longrightarrow> fs path = None \<and> fs1 = fs(path \<mapsto> Directory)"
  by (auto simp: Mkdir_def split: if_splits)

lemma Symlink_Some:
  "Symlink t l fs = Some fs1 \<Longrightarrow> fs l = None \<and> fs1 = fs(l \<mapsto> SymbolicLink t)"
  by (auto simp: Symlink_def split: if_splits)

lemma map_le_fresh: "fs k = None \<Longrightarrow> fs \<subseteq>\<^sub>m fs(k \<mapsto> v)"
  by (auto simp: map_le_def)

lemma MkdirAll_grows:
  "MkdirAll path fs = (ok, fs1) \<Longrightarrow>
     fs \<subseteq>\<^sub>m fs1 \<and> (\<forall>q. fs1 q \<noteq> fs q \<longrightarrow> fs1 q = Some Directory)"
proof (induction path fs arbitrary: ok fs1 rule: MkdirAll.induct)
  case (1 path fs)
  show ?case
  proof (cases "Stat fs path")
    case (Some n)
    with 1(2) have "fs1 = fs" by (subst (asm) MkdirAll.simps) (auto split: node.splits)
    then show ?thesis by simp
  next
    case None
    obtain okp fsp where p: "(if 1 < parentEnd path
        then MkdirAll (take (parentEnd path - 1) path) fs else (True, fs)) = (okp, fsp)"
      by (cases "if 1 < parentEnd path
        then MkdirAll (take (parentEnd path - 1) path) fs else (True, fs)") auto
    have parent: "fs \<subseteq>\<^sub>m fsp \<and> (\<forall>q. fsp q \<noteq> fs q \<longrightarrow> fsp q = Some Directory)"
    proof (cases "1 < parentEnd path")
      case True
      with p have "MkdirAll (take (parentEnd path - 1) path) fs = (okp, fsp)" by simp
      from 1(1) [OF None True this] show ?thesis .
    next
      case False
      with p show ?thesis by simp
    qed
    from 1(2) None p have r: "(ok, fs1) =
        (case (okp, fsp) of
           (False, fs1) \<Rightarrow> (False, fs1)
         | (True, fs1) \<Rightarrow>
             (case Mkdir path fs1 of
                Some fs2 \<Rightarrow> (True, fs2)
              | None \<Rightarrow> (Lstat fs1 path = Some Directory, fs1)))"
      by (subst (asm) MkdirAll.simps) (simp only: option.case)
    show ?thesis
    proof (cases "okp \<and> Mkdir path fsp \<noteq> None")
      case True
      then obtain fs2 where m: "Mkdir path fsp = Some fs2" by auto
      with True r have "fs1 = fs2" by simp
      with Mkdir_Some [OF m] have fs1: "fsp path = None" "fs1 = fsp(path \<mapsto> Directory)"
        by auto
      then have "fsp \<subseteq>\<^sub>m fs1" by (simp add: map_le_fresh)
      with parent have "fs \<subseteq>\<^sub>m fs1" by (blast intro: map_le_trans)
      moreover have "\<forall>q. fs1 q \<noteq> fs q \<longrightarrow> fs1 q = Some Directory"
        using parent fs1 by auto
      ultimately show ?thesis by simp
    next
      case False
      with r have "fs1 = fsp" by (auto split: bool.splits option.splits)
      with parent show ?thesis by simp
    qed
  qed
qed

lemma MkdirAll_done:
  "MkdirAll path fs = (True, fs1) \<Longrightarrow> Stat fs1 path = Some Directory"
proof -
  assume a: "MkdirAll path fs = (True, fs1)"
  show ?thesis
  proof (cases "Stat fs path")
    case (Some n)
    with a show ?thesis by (subst (asm) MkdirAll.simps) (auto split: node.splits)
  next
    case None
    obtain okp fsp where p: "(if 1 < parentEnd path
        then MkdirAll (take (parentEnd path - 1) path) fs else (True, fs)) = (okp, fsp)"
      by (cases "if 1 < parentEnd path
        then MkdirAll (take (parentEnd path - 1) path) fs else (True, fs)") auto
    from a None p have r: "(True, fs1) =
        (case (okp, fsp) of
           (False, fs1) \<Rightarrow> (False, fs1)
         | (True, fs1) \<Rightarrow>
             (case Mkdir path fs1 of
                Some fs2 \<Rightarrow> (True, fs2)
              | None \<Rightarrow> (Lstat fs1 path = Some Directory, fs1)))"
      by (subst (asm) MkdirAll.simps) (simp only: option.case)
    then have okp by (cases okp) auto
    show ?thesis
    proof (cases "Mkdir path fsp")
      case None
      with r \<open>okp\<close> have "fs1 = fsp" "Lstat fsp path = Some Directory" by auto
      then show ?thesis by (simp add: Lstat_def Stat_Directory)
    next
      case (Some fs2)
      with r \<open>okp\<close> have "fs1 = fs2" by simp
      with Mkdir_Some [OF Some] show ?thesis by (simp add: Stat_Directory)
    qed
  qed
qed

lemma MkdirAll_again:
  "Stat fs path = Some Directory \<Longrightarrow> MkdirAll path fs = (True, fs)"
  by (subst MkdirAll.simps) simp

subsection \<open>One rule\<close>

lemma getLinkAndTarget_step:
  assumes "getLinkAndTarget r root pf fs = (Inr (l, t), fs1)"
  shows "l = resolvedLink r root pf" and "t = resolvedTarget r root pf"
    and "fs \<subseteq>\<^sub>m fs1" and "\<forall>q. fs1 q \<noteq> fs q \<longrightarrow> fs1 q = Some Directory"
    and "\<And>F. fs1 \<subseteq>\<^sub>m F \<Longrightarrow> getLinkAndTarget r root pf F = (Inr (l, t), F)"
proof -
  consider (go) "kind r = goProtoLibrary" | (ts) "kind r = tsProtoLibrary"
    | (other) "kind r \<noteq> goProtoLibrary" "kind r \<noteq> tsProtoLibrary" by blast
  then have "l = resolvedLink r root pf \<and> t = resolvedTarget r root pf
    \<and> fs \<subseteq>\<^sub>m fs1 \<and> (\<forall>q. fs1 q \<noteq> fs q \<longrightarrow> fs1 q = Some Directory)
    \<and> (\<forall>F. fs1 \<subseteq>\<^sub>m F \<longrightarrow> getLinkAndTarget r root pf F = (Inr (l, t), F))"
  proof cases
    case go
    from assms have ne: "ReplaceAllLiteralString_empty (importPath r) \<noteq> importPath r"
      by (auto simp: getLinkAndTarget_go [OF go] split: if_splits)
    with assms have mk: "MkdirAll (goLinkDir r root) fs = (True, fs1)"
      and lt: "l = resolvedLink r root pf" "t = resolvedTarget r root pf"
      by (auto simp: getLinkAndTarget_go [OF go] split: prod.splits bool.splits)
    note g = MkdirAll_grows [OF mk]
    have "getLinkAndTarget r root pf F = (Inr (l, t), F)" if "fs1 \<subseteq>\<^sub>m F" for F
    proof -
      from Stat_mono [OF that MkdirAll_done [OF mk]]
      have "MkdirAll (goLinkDir r root) F = (True, F)" by (rule MkdirAll_again)
      with ne lt show ?thesis by (simp add: getLinkAndTarget_go [OF go])
    qed
    with lt g show ?thesis by blast
  next
    case ts
    with assms show ?thesis by (auto simp: getLinkAndTarget_ts_resolved)
  next
    case other
    with assms show ?thesis by (simp add: getLinkAndTarget_def Let_def del: Join.simps)
  qed
  then show "l = resolvedLink r root pf" and "t = resolvedTarget r root pf"
    and "fs \<subseteq>\<^sub>m fs1" and "\<forall>q. fs1 q \<noteq> fs q \<longrightarrow> fs1 q = Some Directory"
    and "\<And>F. fs1 \<subseteq>\<^sub>m F \<Longrightarrow> getLinkAndTarget r root pf F = (Inr (l, t), F)"
    by blast+
qed

lemma reconcile_step:
  assumes "reconcile l t (res, fs) = (None, res1, fs1)"
  shows "(fs l = None \<and> fs1 = fs(l \<mapsto> SymbolicLink t)
            \<and> res1 = res\<lparr>created := created res + 1\<rparr>)
         \<or> (fs l = Some (SymbolicLink t) \<and> fs1 = fs
            \<and> res1 = res\<lparr>upToDate := upToDate res + 1\<rparr>)"
proof (cases "fs l")
  case None
  with assms show ?thesis
    by (auto simp: reconcile_def Lstat_def split: option.splits dest: Symlink_Some)
next
  case (Some n)
  with assms show ?thesis
    by (cases n) (auto simp: reconcile_def Lstat_def Readlink_def split: if_splits)
qed

lemma reconcile_again:
  "F l = Some (SymbolicLink t) \<Longrightarrow>
     reconcile l t (res, F) = (None, res\<lparr>upToDate := upToDate res + 1\<rparr>, F)"
  by (simp add: reconcile_def Lstat_def Readlink_def)

text \<open>What one successful round of the loop of \<^verbatim>\<open>processProtoFile\<close> does.\<close>

lemma rule_round:
  assumes g: "getLinkAndTarget r root pf fs = (Inr (l, t), fsa)"
    and c: "reconcile l t (res, fsa) = (None, res1, fs1)"
  shows "fs \<subseteq>\<^sub>m fs1"
    and "created res1 + upToDate res1 = created res + upToDate res + 1"
    and "fs1 (resolvedLink r root pf) = Some (SymbolicLink t)"
    and "\<And>q. q \<noteq> resolvedLink r root pf \<Longrightarrow> \<forall>t. fs q \<noteq> Some (SymbolicLink t) \<Longrightarrow>
           \<forall>t. fs1 q \<noteq> Some (SymbolicLink t)"
    and "\<forall>t. fs (resolvedLink r root pf) \<noteq> Some (SymbolicLink t) \<Longrightarrow>
           upToDate res1 = upToDate res"
proof -
  note gs = getLinkAndTarget_step [OF g]
  note rs = reconcile_step [OF c]
  have le: "fsa \<subseteq>\<^sub>m fs1" using rs by (auto simp: map_le_fresh)
  with gs(3) show "fs \<subseteq>\<^sub>m fs1" by (blast intro: map_le_trans)
  from rs show "created res1 + upToDate res1 = created res + upToDate res + 1" by auto
  from rs gs(1) show "fs1 (resolvedLink r root pf) = Some (SymbolicLink t)" by auto
  show "\<forall>t. fs1 q \<noteq> Some (SymbolicLink t)"
    if "q \<noteq> resolvedLink r root pf" "\<forall>t. fs q \<noteq> Some (SymbolicLink t)" for q
  proof -
    from that gs(1) rs have "fs1 q = fsa q" by auto
    moreover from gs(4) that(2) have "\<forall>t. fsa q \<noteq> Some (SymbolicLink t)"
      by (metis node.distinct(5) option.inject)
    ultimately show ?thesis by simp
  qed
  show "upToDate res1 = upToDate res"
    if "\<forall>t. fs (resolvedLink r root pf) \<noteq> Some (SymbolicLink t)"
  proof -
    from gs(4) that have "\<forall>t. fsa (resolvedLink r root pf) \<noteq> Some (SymbolicLink t)"
      by (metis node.distinct(5) option.inject)
    with rs gs(1) show ?thesis by auto
  qed
qed

subsection \<open>The rules of one file\<close>

lemma processLangRules_Cons_None:
  assumes "processLangRules root pf (r # rs) (res, fs) = (None, res1, fs1)"
  obtains l t fsa resb fsb where
    "getLinkAndTarget r root pf fs = (Inr (l, t), fsa)"
    and "reconcile l t (res, fsa) = (None, resb, fsb)"
    and "processLangRules root pf rs (resb, fsb) = (None, res1, fs1)"
proof -
  obtain x fsa where g: "getLinkAndTarget r root pf fs = (x, fsa)"
    by (cases "getLinkAndTarget r root pf fs") auto
  with assms obtain l t where x: "x = Inr (l, t)" by (cases x) auto
  obtain e resb fsb where c: "reconcile l t (res, fsa) = (e, resb, fsb)"
    by (cases "reconcile l t (res, fsa)") auto
  with assms g x have "e = None" by (cases e) auto
  with assms g x c have "processLangRules root pf rs (resb, fsb) = (None, res1, fs1)"
    by simp
  with g x c \<open>e = None\<close> that show thesis by blast
qed

lemma processLangRules_pass:
  assumes "processLangRules root pf rs (res, fs) = (None, res1, fs1)"
  shows "fs \<subseteq>\<^sub>m fs1
    \<and> created res1 + upToDate res1 = created res + upToDate res + length rs
    \<and> (\<forall>F res2. fs1 \<subseteq>\<^sub>m F \<longrightarrow>
          processLangRules root pf rs (res2, F)
            = (None, res2\<lparr>upToDate := upToDate res2 + length rs\<rparr>, F))
    \<and> (\<forall>q. q \<notin> set (map (\<lambda>r. resolvedLink r root pf) rs) \<longrightarrow>
            (\<forall>t. fs q \<noteq> Some (SymbolicLink t)) \<longrightarrow> (\<forall>t. fs1 q \<noteq> Some (SymbolicLink t)))
    \<and> (distinct (map (\<lambda>r. resolvedLink r root pf) rs) \<longrightarrow>
        (\<forall>r \<in> set rs. \<forall>t. fs (resolvedLink r root pf) \<noteq> Some (SymbolicLink t)) \<longrightarrow>
          upToDate res1 = upToDate res)"
  using assms
proof (induction rs arbitrary: res fs)
  case Nil
  then show ?case by simp
next
  case (Cons r rs)
  from Cons.prems obtain l t fsa resb fsb where
    g: "getLinkAndTarget r root pf fs = (Inr (l, t), fsa)" and
    c: "reconcile l t (res, fsa) = (None, resb, fsb)" and
    rest: "processLangRules root pf rs (resb, fsb) = (None, res1, fs1)"
    by (rule processLangRules_Cons_None)
  note rr = rule_round [OF g c]
  note gs = getLinkAndTarget_step [OF g]
  note ih = Cons.IH [OF rest]
  have le: "fs \<subseteq>\<^sub>m fs1" using rr(1) ih by (blast intro: map_le_trans)
  have cnt: "created res1 + upToDate res1 = created res + upToDate res + length (r # rs)"
    using rr(2) ih by simp
  have again: "processLangRules root pf (r # rs) (res2, F)
            = (None, res2\<lparr>upToDate := upToDate res2 + length (r # rs)\<rparr>, F)"
    if F: "fs1 \<subseteq>\<^sub>m F" for F res2
  proof -
    from ih have "fsb \<subseteq>\<^sub>m fs1" by simp
    with F have fsbF: "fsb \<subseteq>\<^sub>m F" by (blast intro: map_le_trans)
    have "fsa \<subseteq>\<^sub>m fsb" using reconcile_step [OF c] by (auto simp: map_le_fresh)
    with fsbF have "fsa \<subseteq>\<^sub>m F" by (blast intro: map_le_trans)
    from gs(5) [OF this] have 1: "getLinkAndTarget r root pf F = (Inr (l, t), F)" .
    from rr(3) gs(1) fsbF have "F l = Some (SymbolicLink t)"
      by (auto simp: map_le_def dom_def)
    then have 2: "reconcile l t (res2, F) = (None, res2\<lparr>upToDate := upToDate res2 + 1\<rparr>, F)"
      by (rule reconcile_again)
    from ih F have 3: "processLangRules root pf rs (res2\<lparr>upToDate := upToDate res2 + 1\<rparr>, F)
        = (None, res2\<lparr>upToDate := upToDate res2 + 1\<rparr>
                   \<lparr>upToDate := upToDate (res2\<lparr>upToDate := upToDate res2 + 1\<rparr>) + length rs\<rparr>, F)"
      by blast
    from 1 2 3 show ?thesis by simp
  qed
  have keep: "\<forall>t. fs1 q \<noteq> Some (SymbolicLink t)"
    if "q \<notin> set (map (\<lambda>r. resolvedLink r root pf) (r # rs))"
      "\<forall>t. fs q \<noteq> Some (SymbolicLink t)" for q
  proof -
    from that have "q \<noteq> resolvedLink r root pf"
      and q: "q \<notin> set (map (\<lambda>r. resolvedLink r root pf) rs)" by auto
    from rr(4) [OF this(1) that(2)] have "\<forall>t. fsb q \<noteq> Some (SymbolicLink t)" .
    with ih q show ?thesis by blast
  qed
  have fresh: "upToDate res1 = upToDate res"
    if d: "distinct (map (\<lambda>r. resolvedLink r root pf) (r # rs))"
      and n: "\<forall>r \<in> set (r # rs). \<forall>t. fs (resolvedLink r root pf) \<noteq> Some (SymbolicLink t)"
  proof -
    from n have "\<forall>t. fs (resolvedLink r root pf) \<noteq> Some (SymbolicLink t)" by simp
    from rr(5) [OF this] have 1: "upToDate resb = upToDate res" .
    have "\<forall>t. fsb (resolvedLink x root pf) \<noteq> Some (SymbolicLink t)" if "x \<in> set rs" for x
    proof (rule rr(4))
      from d have "resolvedLink r root pf \<notin> (\<lambda>r. resolvedLink r root pf) ` set rs"
        by simp
      moreover from that have "resolvedLink x root pf \<in> (\<lambda>r. resolvedLink r root pf) ` set rs"
        by (rule imageI)
      ultimately show "resolvedLink x root pf \<noteq> resolvedLink r root pf"
        by force
      from n that show "\<forall>t. fs (resolvedLink x root pf) \<noteq> Some (SymbolicLink t)" by simp
    qed
    moreover from d have "distinct (map (\<lambda>r. resolvedLink r root pf) rs)" by simp
    ultimately have "upToDate res1 = upToDate resb" using ih by blast
    with 1 show ?thesis by simp
  qed
  from le cnt again keep fresh show ?case by blast
qed

subsection \<open>The files of a pass\<close>

lemma linksOfFile_stable:
  assumes "fs \<subseteq>\<^sub>m G" and "G \<subseteq>\<^sub>m F"
    and "Stat fs (Join [Dir pf, ''BUILD'']) = None \<longrightarrow> Stat F (Join [Dir pf, ''BUILD'']) = None"
  shows "linksOfFile G root pf = linksOfFile fs root pf"
proof (cases "Stat fs (Join [Dir pf, ''BUILD''])")
  case None
  with assms(3) have "Stat F (Join [Dir pf, ''BUILD'']) = None" by simp
  from Stat_None_mono [OF assms(2) this] None show ?thesis
    by (simp add: linksOfFile_def del: Join.simps)
next
  case (Some x)
  from Stat_mono [OF assms(1) Some] have "Stat G (Join [Dir pf, ''BUILD'']) = Some x" .
  moreover from Some have "parseBuildFile G (Join [Dir pf, ''BUILD''])
      = parseBuildFile fs (Join [Dir pf, ''BUILD''])"
    by (intro parseBuildFile_mono [OF assms(1)]) simp
  ultimately show ?thesis using Some by (auto simp add: linksOfFile_def simp del: Join.simps)
qed

lemma computedLinks_stable:
  assumes "fs \<subseteq>\<^sub>m G" and "G \<subseteq>\<^sub>m F"
    and "\<forall>pf \<in> set pfs. Stat fs (Join [Dir pf, ''BUILD'']) = None
           \<longrightarrow> Stat F (Join [Dir pf, ''BUILD'']) = None"
  shows "computedLinks G root pfs = computedLinks fs root pfs"
proof -
  have "map (linksOfFile G root) pfs = map (linksOfFile fs root) pfs"
    using assms by (intro map_cong refl linksOfFile_stable) auto
  then show ?thesis by (simp only: computedLinks_def)
qed

lemma computedLinks_Cons:
  "computedLinks fs root (pf # pfs) = linksOfFile fs root pf @ computedLinks fs root pfs"
  by (simp add: computedLinks_def)

lemma linksOfFile_skip:
  "Stat fs (Join [Dir pf, ''BUILD'']) = None \<Longrightarrow> linksOfFile fs root pf = []"
  by (simp add: linksOfFile_def del: Join.simps)

lemma linksOfFile_rules:
  "Stat fs (Join [Dir pf, ''BUILD'']) \<noteq> None \<Longrightarrow>
   parseBuildFile fs (Join [Dir pf, ''BUILD'']) = Inr b \<Longrightarrow>
   getLangProtoRulesForProto b pf = Some rules \<Longrightarrow>
   linksOfFile fs root pf = map (\<lambda>r. resolvedLink r root pf) rules"
  by (auto simp add: linksOfFile_def Let_def simp del: Join.simps)

lemma processProtoFiles_head:
  assumes "Stat fs (Join [Dir protoFile, ''BUILD'']) \<noteq> None"
    and "buildFiles (Join [Dir protoFile, ''BUILD'']) = Some b \<or>
         (buildFiles (Join [Dir protoFile, ''BUILD'']) = None \<and>
          parseBuildFile fs (Join [Dir protoFile, ''BUILD'']) = Inr b)"
    and "processProtoFile workspaceRoot protoFile b (res, fs) = (Some e, st1)"
  shows "processProtoFiles workspaceRoot (protoFile # protoFiles) buildFiles (res, fs)
           = (Some e, st1)"
  using assms by (auto simp: Let_def simp del: Join.simps)

lemma processProtoFiles_skip:
  "Stat fs (Join [Dir pf, ''BUILD'']) = None \<Longrightarrow>
   processProtoFiles root (pf # pfs) cache (res, fs) = processProtoFiles root pfs cache (res, fs)"
  by (simp add: Let_def del: Join.simps)

lemma processProtoFiles_file:
  assumes "Stat fs (Join [Dir pf, ''BUILD'']) \<noteq> None"
    and "parseBuildFile fs (Join [Dir pf, ''BUILD'']) = Inr b"
    and "\<forall>p b. cache p = Some b \<longrightarrow> parseBuildFile fs p = Inr b"
    and "getLangProtoRulesForProto b pf = Some rules"
    and "processLangRules root pf rules (res, fs) = (None, resb, fsb)"
  shows "\<exists>cache1. (\<forall>p b. cache1 p = Some b \<longrightarrow> parseBuildFile fs p = Inr b) \<and>
           processProtoFiles root (pf # pfs) cache (res, fs)
             = processProtoFiles root pfs cache1 (resb, fsb)"
proof (cases "cache (Join [Dir pf, ''BUILD''])")
  case None
  let ?c = "cache(Join [Dir pf, ''BUILD''] \<mapsto> b)"
  have "\<forall>p b. ?c p = Some b \<longrightarrow> parseBuildFile fs p = Inr b"
    using assms(2,3) by (auto simp del: Join.simps)
  moreover have "processProtoFiles root (pf # pfs) cache (res, fs)
             = processProtoFiles root pfs ?c (resb, fsb)"
    using assms None by (auto simp add: Let_def processProtoFile_def simp del: Join.simps)
  ultimately show ?thesis by blast
next
  case (Some b1)
  with assms(2,3) have "b1 = b" by (auto simp del: Join.simps)
  with Some assms have "processProtoFiles root (pf # pfs) cache (res, fs)
             = processProtoFiles root pfs cache (resb, fsb)"
    by (auto simp add: Let_def processProtoFile_def simp del: Join.simps)
  with assms(3) show ?thesis by blast
qed

lemma processProtoFiles_Cons_None:
  assumes "processProtoFiles root (pf # pfs) cache (res, fs) = (None, res1, fs1)"
    and "\<forall>p b. cache p = Some b \<longrightarrow> parseBuildFile fs p = Inr b"
  shows "(Stat fs (Join [Dir pf, ''BUILD'']) = None
          \<and> processProtoFiles root pfs cache (res, fs) = (None, res1, fs1))
       \<or> (\<exists>b rules resb fsb cache1.
            Stat fs (Join [Dir pf, ''BUILD'']) \<noteq> None
          \<and> parseBuildFile fs (Join [Dir pf, ''BUILD'']) = Inr b
          \<and> getLangProtoRulesForProto b pf = Some rules
          \<and> processLangRules root pf rules (res, fs) = (None, resb, fsb)
          \<and> (\<forall>p b. cache1 p = Some b \<longrightarrow> parseBuildFile fs p = Inr b)
          \<and> processProtoFiles root pfs cache1 (resb, fsb) = (None, res1, fs1))"
proof (cases "Stat fs (Join [Dir pf, ''BUILD'']) = None")
  case True
  with assms(1) show ?thesis by (simp add: processProtoFiles_skip)
next
  case False
  let ?bp = "Join [Dir pf, ''BUILD'']"
  have "\<exists>b. parseBuildFile fs ?bp = Inr b"
  proof (cases "cache ?bp")
    case None
    with assms(1) False show ?thesis
      by (cases "parseBuildFile fs ?bp") (auto simp: Let_def simp del: Join.simps)
  next
    case (Some b)
    with assms(2) show ?thesis by blast
  qed
  then obtain b where b: "parseBuildFile fs ?bp = Inr b" by blast
  have same: "(case cache ?bp of
                    Some b \<Rightarrow> Inr (b, cache)
                  | None \<Rightarrow>
                      (case parseBuildFile fs ?bp of
                         Inl e \<Rightarrow> Inl (BuildFileError ?bp e)
                       | Inr b \<Rightarrow> Inr (b, cache(?bp \<mapsto> b))))
      = Inr (b, case cache ?bp of Some b \<Rightarrow> cache | None \<Rightarrow> cache(?bp \<mapsto> b))"
    using b assms(2) by (cases "cache ?bp") (auto simp del: Join.simps)
  from assms(1) False same
  have run: "(case processProtoFile root pf b (res, fs) of
                   (Some e, st1) \<Rightarrow> (Some e, st1)
                 | (None, st1) \<Rightarrow>
                     processProtoFiles root pfs
                       (case cache ?bp of Some b \<Rightarrow> cache | None \<Rightarrow> cache(?bp \<mapsto> b)) st1)
      = (None, res1, fs1)"
    by (simp add: Let_def del: Join.simps)
  obtain e resb fsb where p: "processProtoFile root pf b (res, fs) = (e, resb, fsb)"
    by (cases "processProtoFile root pf b (res, fs)") auto
  with run have e: "e = None" by (cases e) auto
  with p obtain rules where rules: "getLangProtoRulesForProto b pf = Some rules"
    and lr: "processLangRules root pf rules (res, fs) = (None, resb, fsb)"
    by (cases "getLangProtoRulesForProto b pf") (auto simp: processProtoFile_def)
  from processProtoFiles_file [OF False b assms(2) rules lr, of pfs] assms(1)
  obtain cache1 where "\<forall>p b. cache1 p = Some b \<longrightarrow> parseBuildFile fs p = Inr b"
    "processProtoFiles root pfs cache1 (resb, fsb) = (None, res1, fs1)"
    by auto
  with False b rules lr show ?thesis by blast
qed

lemma processProtoFiles_pass:
  assumes "processProtoFiles root pfs cache (res, fs) = (None, res1, fs1)"
    and "\<forall>p b. cache p = Some b \<longrightarrow> parseBuildFile fs p = Inr b"
    and "fs1 \<subseteq>\<^sub>m F"
    and "\<forall>pf \<in> set pfs. Stat fs (Join [Dir pf, ''BUILD'']) = None
           \<longrightarrow> Stat F (Join [Dir pf, ''BUILD'']) = None"
  shows "fs \<subseteq>\<^sub>m fs1
    \<and> created res1 + upToDate res1
        = created res + upToDate res + length (computedLinks fs root pfs)
    \<and> (\<forall>cache2 res2. (\<forall>p b. cache2 p = Some b \<longrightarrow> parseBuildFile F p = Inr b) \<longrightarrow>
          processProtoFiles root pfs cache2 (res2, F)
            = (None, res2\<lparr>upToDate := upToDate res2 + length (computedLinks fs root pfs)\<rparr>, F))
    \<and> (\<forall>q. q \<notin> set (computedLinks fs root pfs) \<longrightarrow>
            (\<forall>t. fs q \<noteq> Some (SymbolicLink t)) \<longrightarrow> (\<forall>t. fs1 q \<noteq> Some (SymbolicLink t)))
    \<and> (distinct (computedLinks fs root pfs) \<longrightarrow>
        (\<forall>l \<in> set (computedLinks fs root pfs). \<forall>t. fs l \<noteq> Some (SymbolicLink t)) \<longrightarrow>
          upToDate res1 = upToDate res)"
  using assms
proof (induction pfs arbitrary: cache res fs)
  case Nil
  then show ?case by (simp add: computedLinks_def)
next
  case (Cons pf pfs)
  let ?bp = "Join [Dir pf, ''BUILD'']"
  from processProtoFiles_Cons_None [OF Cons.prems(1,2)]
  consider (skip) "Stat fs ?bp = None"
      "processProtoFiles root pfs cache (res, fs) = (None, res1, fs1)"
    | (found) b rules resb fsb cache1 where
      "Stat fs ?bp \<noteq> None"
      "parseBuildFile fs ?bp = Inr b"
      "getLangProtoRulesForProto b pf = Some rules"
      "processLangRules root pf rules (res, fs) = (None, resb, fsb)"
      "\<forall>p b. cache1 p = Some b \<longrightarrow> parseBuildFile fs p = Inr b"
      "processProtoFiles root pfs cache1 (resb, fsb) = (None, res1, fs1)"
    by (elim disjE exE conjE) blast+
  then show ?case
  proof cases
    case skip
    have st: "\<forall>pf \<in> set pfs. Stat fs (Join [Dir pf, ''BUILD'']) = None
           \<longrightarrow> Stat F (Join [Dir pf, ''BUILD'']) = None"
      using Cons.prems(4) by simp
    note ih = Cons.IH [OF skip(2) Cons.prems(2,3) st]
    have links: "computedLinks fs root (pf # pfs) = computedLinks fs root pfs"
      by (simp add: computedLinks_Cons linksOfFile_skip [OF skip(1)])
    from skip(1) Cons.prems(4) have "Stat F ?bp = None" by simp
    then have "\<And>cache2 res2. processProtoFiles root (pf # pfs) cache2 (res2, F)
        = processProtoFiles root pfs cache2 (res2, F)"
      by (rule processProtoFiles_skip)
    with ih show ?thesis unfolding links by simp
  next
    case (found b rules resb fsb cache1)
    note lr = processLangRules_pass [OF found(4)]
    from lr have le1: "fs \<subseteq>\<^sub>m fsb" by simp
    have c1: "\<forall>p b. cache1 p = Some b \<longrightarrow> parseBuildFile fsb p = Inr b"
    proof (intro allI impI)
      fix p b0 assume "cache1 p = Some b0"
      with found(5) have p: "parseBuildFile fs p = Inr b0" by blast
      from parseBuildFile_mono [OF le1 parseBuildFile_Inr_Stat [OF p]] p
      show "parseBuildFile fsb p = Inr b0" by simp
    qed
    have st: "\<forall>pf \<in> set pfs. Stat fsb (Join [Dir pf, ''BUILD'']) = None
           \<longrightarrow> Stat F (Join [Dir pf, ''BUILD'']) = None"
      using Cons.prems(4) Stat_None_mono [OF le1] by simp
    note ih = Cons.IH [OF found(6) c1 Cons.prems(3) st]
    from ih have le2: "fsb \<subseteq>\<^sub>m fs1" by simp
    with Cons.prems(3) have fsbF: "fsb \<subseteq>\<^sub>m F" by (blast intro: map_le_trans)
    have tail: "computedLinks fsb root pfs = computedLinks fs root pfs"
      using Cons.prems(4) by (intro computedLinks_stable [OF le1 fsbF]) simp
    have head: "linksOfFile fs root pf = map (\<lambda>r. resolvedLink r root pf) rules"
      by (rule linksOfFile_rules [OF found(1,2,3)])
    have links: "computedLinks fs root (pf # pfs)
        = map (\<lambda>r. resolvedLink r root pf) rules @ computedLinks fs root pfs"
      by (simp add: computedLinks_Cons head)
    have le: "fs \<subseteq>\<^sub>m fs1" using le1 le2 by (blast intro: map_le_trans)
    have cnt: "created res1 + upToDate res1
        = created res + upToDate res + length (computedLinks fs root (pf # pfs))"
      using lr ih unfolding links tail by simp
    have again: "processProtoFiles root (pf # pfs) cache2 (res2, F)
            = (None, res2\<lparr>upToDate := upToDate res2
                 + length (computedLinks fs root (pf # pfs))\<rparr>, F)"
      if c2: "\<forall>p b. cache2 p = Some b \<longrightarrow> parseBuildFile F p = Inr b" for cache2 res2
    proof -
      have fsF: "fs \<subseteq>\<^sub>m F" using le Cons.prems(3) by (blast intro: map_le_trans)
      from found(1) obtain x where "Stat fs ?bp = Some x" by auto
      from Stat_mono [OF fsF this] have 1: "Stat F ?bp \<noteq> None" by simp
      from parseBuildFile_mono [OF fsF found(1)] found(2)
      have 2: "parseBuildFile F ?bp = Inr b" by simp
      from lr fsbF have 3: "processLangRules root pf rules (res2, F)
            = (None, res2\<lparr>upToDate := upToDate res2 + length rules\<rparr>, F)" by blast
      from processProtoFiles_file [OF 1 2 c2 found(3) 3, of pfs]
      obtain cache3 where c3: "\<forall>p b. cache3 p = Some b \<longrightarrow> parseBuildFile F p = Inr b"
        and run: "processProtoFiles root (pf # pfs) cache2 (res2, F)
             = processProtoFiles root pfs cache3
                 (res2\<lparr>upToDate := upToDate res2 + length rules\<rparr>, F)"
        by blast
      from ih c3 have "processProtoFiles root pfs cache3
                 (res2\<lparr>upToDate := upToDate res2 + length rules\<rparr>, F)
          = (None, res2\<lparr>upToDate := upToDate res2 + length rules\<rparr>
               \<lparr>upToDate := upToDate (res2\<lparr>upToDate := upToDate res2 + length rules\<rparr>)
                  + length (computedLinks fsb root pfs)\<rparr>, F)"
        by blast
      with run show ?thesis unfolding links tail by (simp add: add.assoc)
    qed
    have keep: "\<forall>t. fs1 q \<noteq> Some (SymbolicLink t)"
      if "q \<notin> set (computedLinks fs root (pf # pfs))" "\<forall>t. fs q \<noteq> Some (SymbolicLink t)"
      for q
    proof -
      from that(1) have q1: "q \<notin> set (map (\<lambda>r. resolvedLink r root pf) rules)"
        and q2: "q \<notin> set (computedLinks fsb root pfs)"
        unfolding links tail by auto
      from lr q1 that(2) have "\<forall>t. fsb q \<noteq> Some (SymbolicLink t)" by blast
      with ih q2 show ?thesis by blast
    qed
    have fresh: "upToDate res1 = upToDate res"
      if d: "distinct (computedLinks fs root (pf # pfs))"
        and n: "\<forall>l \<in> set (computedLinks fs root (pf # pfs)).
                  \<forall>t. fs l \<noteq> Some (SymbolicLink t)"
    proof -
      from d have d1: "distinct (map (\<lambda>r. resolvedLink r root pf) rules)"
        and d2: "distinct (computedLinks fsb root pfs)"
        and dis: "set (map (\<lambda>r. resolvedLink r root pf) rules)
                    \<inter> set (computedLinks fsb root pfs) = {}"
        unfolding links tail by auto
      from n have "\<forall>r \<in> set rules. \<forall>t. fs (resolvedLink r root pf) \<noteq> Some (SymbolicLink t)"
        unfolding links by auto
      with lr d1 have 1: "upToDate resb = upToDate res" by blast
      have "\<forall>t. fsb l \<noteq> Some (SymbolicLink t)" if l: "l \<in> set (computedLinks fsb root pfs)"
        for l
      proof -
        from l dis have "l \<notin> set (map (\<lambda>r. resolvedLink r root pf) rules)" by blast
        moreover from l n have "\<forall>t. fs l \<noteq> Some (SymbolicLink t)"
          unfolding links tail by auto
        ultimately show ?thesis using lr by blast
      qed
      with ih d2 have "upToDate res1 = upToDate resb" by blast
      with 1 show ?thesis by simp
    qed
    from le cnt again keep fresh show ?thesis by blast
  qed
qed

text \<open>
  C1 (as amended).  Take a pass of \<^verbatim>\<open>processWorkspace\<close> that succeeds, over the
  source files the walk finds, and suppose that the walk finds the same files afterwards
  and that the pass has put nothing where a descriptor was looked for and not found.
  Let \<open>N\<close> be the number of links the pass computes.  Then the counters of the pass
  add up to \<open>N\<close>; a second pass right after it succeeds with \<open>created = 0\<close> and
  \<open>upToDate = N\<close> and leaves the file system exactly as the first pass left it; and
  when the computed links are pairwise different and none of them is present before the
  first pass, the first pass has \<open>created = N\<close> and \<open>upToDate = 0\<close>.
\<close>

theorem second_pass_idempotent:
  assumes "collectProtoFiles (walk fs0 root) [] = Inr pfs"
    and "collectProtoFiles (walk fs1 root) [] = Inr pfs"
    and "processWorkspace walk root fs0 = (Inr res1, fs1)"
    and "\<forall>pf \<in> set pfs. Stat fs0 (Join [Dir pf, ''BUILD'']) = None
           \<longrightarrow> Stat fs1 (Join [Dir pf, ''BUILD'']) = None"
  shows "processWorkspace walk root fs1
           = (Inr \<lparr>created = 0, upToDate = length (computedLinks fs0 root pfs)\<rparr>, fs1)
       \<and> created res1 + upToDate res1 = length (computedLinks fs0 root pfs)
       \<and> (distinct (computedLinks fs0 root pfs) \<and>
          (\<forall>l \<in> set (computedLinks fs0 root pfs). fs0 l = None)
          \<longrightarrow> created res1 = length (computedLinks fs0 root pfs) \<and> upToDate res1 = 0)"
proof -
  from assms(3) have ws: "Stat fs0 (Join [root, ''WORKSPACE'']) \<noteq> None"
    by (auto simp: processWorkspace_def simp del: Join.simps split: if_splits)
  with assms(1,3) have run: "processProtoFiles root pfs Map.empty
      (\<lparr>created = 0, upToDate = 0\<rparr>, fs0) = (None, res1, fs1)"
    by (auto simp: processWorkspace_def simp del: Join.simps
          split: if_splits prod.splits option.splits)
  have c0: "\<forall>p b. Map.empty p = Some b \<longrightarrow> parseBuildFile fs0 p = Inr b" by simp
  note pass = processProtoFiles_pass [OF run c0 map_le_refl assms(4)]
  from pass have le: "fs0 \<subseteq>\<^sub>m fs1" by simp
  from ws obtain x where "Stat fs0 (Join [root, ''WORKSPACE'']) = Some x" by auto
  from Stat_mono [OF le this] have ws1: "Stat fs1 (Join [root, ''WORKSPACE'']) \<noteq> None"
    by simp
  have c1: "\<forall>p b. Map.empty p = Some b \<longrightarrow> parseBuildFile fs1 p = Inr b" by simp
  from pass have "\<forall>cache2 res2. (\<forall>p b. cache2 p = Some b \<longrightarrow> parseBuildFile fs1 p = Inr b) \<longrightarrow>
          processProtoFiles root pfs cache2 (res2, fs1)
            = (None, res2\<lparr>upToDate := upToDate res2 + length (computedLinks fs0 root pfs)\<rparr>, fs1)"
    by (elim conjE)
  from this [rule_format, of Map.empty "\<lparr>created = 0, upToDate = 0\<rparr>", OF c1 [rule_format]]
  have "processProtoFiles root pfs Map.empty (\<lparr>created = 0, upToDate = 0\<rparr>, fs1)
      = (None, \<lparr>created = 0, upToDate = 0\<rparr>
           \<lparr>upToDate := upToDate \<lparr>created = 0, upToDate = 0\<rparr>
              + length (computedLinks fs0 root pfs)\<rparr>, fs1)" .
  with ws1 assms(2) have second: "processWorkspace walk root fs1
           = (Inr \<lparr>created = 0, upToDate = length (computedLinks fs0 root pfs)\<rparr>, fs1)"
    by (simp add: processWorkspace_def del: Join.simps)
  from pass have total: "created res1 + upToDate res1 = length (computedLinks fs0 root pfs)"
    by simp
  have first: "created res1 = length (computedLinks fs0 root pfs) \<and> upToDate res1 = 0"
    if "distinct (computedLinks fs0 root pfs)"
      and "\<forall>l \<in> set (computedLinks fs0 root pfs). fs0 l = None"
  proof -
    from that(2) have "\<forall>l \<in> set (computedLinks fs0 root pfs).
        \<forall>t. fs0 l \<noteq> Some (SymbolicLink t)" by simp
    with pass that(1) have "upToDate res1 = 0" by simp
    with total show ?thesis by simp
  qed
  from second total first show ?thesis by blast
qed

lemma ReadFile_workspace_two:
  "ReadFile (workspace_two buildFile) ''/ws/pkg/BUILD'' = Some (Some buildFile)"
  by (rule ReadFile_regular) (simp add: workspace_two_def)

lemma Stat_workspace_two:
  "Stat (workspace_two buildFile) ''/ws/WORKSPACE'' = Some (RegularFile None)"
  by (subst Stat_nonlink) (simp_all add: workspace_two_def)

lemma parse_two:
  "parseBuildFile (workspace_two two_sources) ''/ws/pkg/BUILD''
     = Inr \<lparr>protoFileToRule = [''a.proto'' \<mapsto> ''m'', ''b.proto'' \<mapsto> ''m''],
            protoRuleToLangProtoRules =
              [''m'' \<mapsto> [\<lparr>kind = ''ts_proto_library'', name = ''m_ts'', protoRuleName = ''m'',
                            importPath = []\<rparr>]]\<rparr>"
  by (simp add: parseBuildFile_read [OF ReadFile_workspace_two] two_sources_def descr_eval)

lemma collect_two:
  "collectProtoFiles (walk_two (workspace_two buildFile) ''/ws'') []
     = Inr [''/ws/pkg/a.proto'', ''/ws/pkg/b.proto'']"
  "collectProtoFiles
     (walk_two ((workspace_two buildFile)(''/ws/pkg/m_ts.d.ts'' \<mapsto> SymbolicLink t)) ''/ws'') []
     = Inr [''/ws/pkg/a.proto'', ''/ws/pkg/b.proto'']"
  by (simp_all add: walk_two_def walkOver_def workspace_two_def HasSuffix_def sep_def)

lemma build_paths:
  "Join [Dir ''/ws/pkg/a.proto'', ''BUILD''] = ''/ws/pkg/BUILD''"
  "Join [Dir ''/ws/pkg/b.proto'', ''BUILD''] = ''/ws/pkg/BUILD''"
  "Join [Dir ''/ws/pkg/m.proto'', ''BUILD''] = ''/ws/pkg/BUILD''"
  "Join [''/ws'', ''WORKSPACE''] = ''/ws/WORKSPACE''"
  by (simp_all add: path_eval)

lemma ts_paths_two:
  "resolvedLink \<lparr>kind = ''ts_proto_library'', name = ''m_ts'', protoRuleName = ''m'',
      importPath = []\<rparr> ''/ws'' ''/ws/pkg/a.proto'' = ''/ws/pkg/m_ts.d.ts''"
  "resolvedLink \<lparr>kind = ''ts_proto_library'', name = ''m_ts'', protoRuleName = ''m'',
      importPath = []\<rparr> ''/ws'' ''/ws/pkg/b.proto'' = ''/ws/pkg/m_ts.d.ts''"
  "resolvedLink \<lparr>kind = ''ts_proto_library'', name = ''m_ts'', protoRuleName = ''m'',
      importPath = []\<rparr> ''/ws'' ''/ws/pkg/m.proto'' = ''/ws/pkg/m_ts.d.ts''"
  "resolvedTarget \<lparr>kind = ''ts_proto_library'', name = ''m_ts'', protoRuleName = ''m'',
      importPath = []\<rparr> ''/ws'' ''/ws/pkg/a.proto'' = ''/ws/bazel-bin/pkg/m_ts.d.ts''"
  "resolvedTarget \<lparr>kind = ''ts_proto_library'', name = ''m_ts'', protoRuleName = ''m'',
      importPath = []\<rparr> ''/ws'' ''/ws/pkg/b.proto'' = ''/ws/bazel-bin/pkg/m_ts.d.ts''"
  "resolvedTarget \<lparr>kind = ''ts_proto_library'', name = ''m_ts'', protoRuleName = ''m'',
      importPath = []\<rparr> ''/ws'' ''/ws/pkg/m.proto'' = ''/ws/bazel-bin/pkg/m_ts.d.ts''"
  by (simp_all add: resolvedLink_def resolvedTarget_def goProtoLibrary_def path_eval)

lemma ts_kind:
  "kind \<lparr>kind = ''ts_proto_library'', name = n, protoRuleName = p, importPath = i\<rparr>
     = tsProtoLibrary"
  by (simp add: tsProtoLibrary_def)

text \<open>Against C1 as stated: one \<^verbatim>\<open>proto_library\<close> with two sources and one
  \<^verbatim>\<open>ts_proto_library\<close> rule.  Both source files resolve to the same link, which
  is not present before the pass; the first pass creates it for the first file and
  finds it up to date for the second.\<close>

theorem first_pass_shared_link_counterexample:
  "computedLinks (workspace_two two_sources) ''/ws'' [''/ws/pkg/a.proto'', ''/ws/pkg/b.proto'']
     = [''/ws/pkg/m_ts.d.ts'', ''/ws/pkg/m_ts.d.ts'']
   \<and> workspace_two two_sources ''/ws/pkg/m_ts.d.ts'' = None
   \<and> processWorkspace walk_two ''/ws'' (workspace_two two_sources)
     = (Inr \<lparr>created = 1, upToDate = 1\<rparr>,
        (workspace_two two_sources)
          (''/ws/pkg/m_ts.d.ts'' \<mapsto> SymbolicLink ''/ws/bazel-bin/pkg/m_ts.d.ts''))"
proof (intro conjI)
  have st: "Stat (workspace_two two_sources) ''/ws/pkg/BUILD''
      = Some (RegularFile (Some two_sources))"
    by (simp add: Stat_eval workspace_two_def)
  have bases: "Base ''/ws/pkg/a.proto'' = ''a.proto''" "Base ''/ws/pkg/b.proto'' = ''b.proto''"
    by (simp_all add: path_eval)
  have la: "linksOfFile (workspace_two two_sources) ''/ws'' ''/ws/pkg/a.proto''
      = [''/ws/pkg/m_ts.d.ts'']"
    by (simp add: linksOfFile_def build_paths st parse_two
          getLangProtoRulesForProto_def bases ts_paths_two del: Join.simps)
  have lb: "linksOfFile (workspace_two two_sources) ''/ws'' ''/ws/pkg/b.proto''
      = [''/ws/pkg/m_ts.d.ts'']"
    by (simp add: linksOfFile_def build_paths st parse_two
          getLangProtoRulesForProto_def bases ts_paths_two del: Join.simps)
  show "computedLinks (workspace_two two_sources) ''/ws''
      [''/ws/pkg/a.proto'', ''/ws/pkg/b.proto'']
     = [''/ws/pkg/m_ts.d.ts'', ''/ws/pkg/m_ts.d.ts'']"
    by (simp add: computedLinks_def la lb)
  show "workspace_two two_sources ''/ws/pkg/m_ts.d.ts'' = None"
    by (simp add: workspace_two_def)
  let ?fs1 = "(workspace_two two_sources)
          (''/ws/pkg/m_ts.d.ts'' \<mapsto> SymbolicLink ''/ws/bazel-bin/pkg/m_ts.d.ts'')"
  have st1: "Stat ?fs1 ''/ws/pkg/BUILD'' = Some (RegularFile (Some two_sources))"
    by (simp add: Stat_eval workspace_two_def)
  have w: "Stat (workspace_two two_sources) ''/ws/WORKSPACE'' \<noteq> None"
    by (simp add: Stat_workspace_two)
  have r1: "reconcile ''/ws/pkg/m_ts.d.ts'' ''/ws/bazel-bin/pkg/m_ts.d.ts''
      (\<lparr>created = 0, upToDate = 0\<rparr>, workspace_two two_sources)
      = (None, \<lparr>created = Suc 0, upToDate = 0\<rparr>, ?fs1)"
    by (simp add: reconcile_def fs_eval path_eval)
  have r2: "reconcile ''/ws/pkg/m_ts.d.ts'' ''/ws/bazel-bin/pkg/m_ts.d.ts''
      (\<lparr>created = Suc 0, upToDate = 0\<rparr>, ?fs1)
      = (None, \<lparr>created = Suc 0, upToDate = Suc 0\<rparr>, ?fs1)"
    by (simp add: reconcile_again)
  show "processWorkspace walk_two ''/ws'' (workspace_two two_sources)
     = (Inr \<lparr>created = 1, upToDate = 1\<rparr>, ?fs1)"
    using w
    by (simp add: processWorkspace_def collect_two build_paths st st1 parse_two
          processProtoFile_def getLangProtoRulesForProto_def bases
          getLinkAndTarget_ts_resolved [OF ts_kind] ts_paths_two r1 r2 del: Join.simps)
qed

lemma parse_both:
  "ReadFile fs ''/ws/pkg/BUILD'' = Some (Some both_kinds) \<Longrightarrow>
   parseBuildFile fs ''/ws/pkg/BUILD''
     = Inr \<lparr>protoFileToRule = [''m.proto'' \<mapsto> ''m''],
            protoRuleToLangProtoRules = [''m'' \<mapsto> [example_go_rule, example_ts_rule]]\<rparr>"
  by (simp add: parseBuildFile_read both_kinds_def example_descriptor_def descr_eval
        example_go_rule_def example_ts_rule_def Let_def)

lemma collect_one:
  "collectProtoFiles (walk_one (workspace_with buildFile) ''/ws'') []
     = Inr [''/ws/pkg/m.proto'']"
  "collectProtoFiles
     (walk_one
        ((workspace_with buildFile)
           (''/ws/pkg/m'' \<mapsto> Directory, ''/ws/pkg/m/m.pb.go'' \<mapsto> SymbolicLink t,
            ''/ws/pkg/m_ts.d.ts'' \<mapsto> SymbolicLink u)) ''/ws'') []
     = Inr [''/ws/pkg/m.proto'']"
  by (simp_all add: walk_one_def walkOver_def workspace_with_def HasSuffix_def sep_def)

lemma example_ts_kind: "kind example_ts_rule = tsProtoLibrary"
  by (simp add: example_ts_rule_def tsProtoLibrary_def)

lemma example_ts_paths:
  "resolvedLink example_ts_rule ''/ws'' ''/ws/pkg/m.proto'' = ''/ws/pkg/m_ts.d.ts''"
  "resolvedTarget example_ts_rule ''/ws'' ''/ws/pkg/m.proto'' = ''/ws/bazel-bin/pkg/m_ts.d.ts''"
  by (simp_all add: example_ts_rule_def ts_paths_two)

theorem second_pass_idempotent_witness:
  "processWorkspace walk_one ''/ws'' (workspace_with both_kinds)
     = (Inr \<lparr>created = 2, upToDate = 0\<rparr>,
        (workspace_with both_kinds)
          (''/ws/pkg/m'' \<mapsto> Directory,
           ''/ws/pkg/m/m.pb.go'' \<mapsto>
             SymbolicLink ''/ws/bazel-bin/pkg/m_go_/github.com/acme/proj/pkg/m/m.pb.go'',
           ''/ws/pkg/m_ts.d.ts'' \<mapsto> SymbolicLink ''/ws/bazel-bin/pkg/m_ts.d.ts''))
   \<and> processWorkspace walk_one ''/ws''
       ((workspace_with both_kinds)
          (''/ws/pkg/m'' \<mapsto> Directory,
           ''/ws/pkg/m/m.pb.go'' \<mapsto>
             SymbolicLink ''/ws/bazel-bin/pkg/m_go_/github.com/acme/proj/pkg/m/m.pb.go'',
           ''/ws/pkg/m_ts.d.ts'' \<mapsto> SymbolicLink ''/ws/bazel-bin/pkg/m_ts.d.ts''))
     = (Inr \<lparr>created = 0, upToDate = 2\<rparr>,
        (workspace_with both_kinds)
          (''/ws/pkg/m'' \<mapsto> Directory,
           ''/ws/pkg/m/m.pb.go'' \<mapsto>
             SymbolicLink ''/ws/bazel-bin/pkg/m_go_/github.com/acme/proj/pkg/m/m.pb.go'',
           ''/ws/pkg/m_ts.d.ts'' \<mapsto> SymbolicLink ''/ws/bazel-bin/pkg/m_ts.d.ts''))"
proof -
  let ?fs0 = "workspace_with both_kinds"
  let ?fsa = "?fs0(''/ws/pkg/m'' \<mapsto> Directory)"
  let ?go = "''/ws/bazel-bin/pkg/m_go_/github.com/acme/proj/pkg/m/m.pb.go''"
  let ?fsb = "?fsa(''/ws/pkg/m/m.pb.go'' \<mapsto> SymbolicLink ?go)"
  let ?fs1 = "?fsb(''/ws/pkg/m_ts.d.ts'' \<mapsto> SymbolicLink ''/ws/bazel-bin/pkg/m_ts.d.ts'')"
  let ?b = "\<lparr>protoFileToRule = [''m.proto'' \<mapsto> ''m''],
            protoRuleToLangProtoRules = [''m'' \<mapsto> [example_go_rule, example_ts_rule]]\<rparr>"
  have st: "Stat ?fs0 ''/ws/pkg/BUILD'' = Some (RegularFile (Some both_kinds))"
    by (simp add: Stat_eval workspace_with_def)
  have w: "Stat ?fs0 ''/ws/WORKSPACE'' = Some (RegularFile None)"
    by (rule Stat_workspace_with)
  have p: "parseBuildFile ?fs0 ''/ws/pkg/BUILD'' = Inr ?b"
    by (rule parse_both [OF ReadFile_workspace_with])
  have base: "Base ''/ws/pkg/m.proto'' = ''m.proto''" by (simp add: path_eval)
  have look: "getLangProtoRulesForProto ?b ''/ws/pkg/m.proto''
      = Some [example_go_rule, example_ts_rule]"
    by (simp add: getLangProtoRulesForProto_def base)
  have g1: "getLinkAndTarget example_go_rule ''/ws'' ''/ws/pkg/m.proto'' ?fs0
      = (Inr (''/ws/pkg/m/m.pb.go'', ?go), ?fsa)"
    by (simp add: getLinkAndTarget_go [OF example_go_kind] example_go_strips example_go_paths
          MkdirAll_example)
       (simp add: example_go_rule_def)
  have r1: "reconcile ''/ws/pkg/m/m.pb.go'' ?go (\<lparr>created = 0, upToDate = 0\<rparr>, ?fsa)
      = (None, \<lparr>created = Suc 0, upToDate = 0\<rparr>, ?fsb)"
    by (simp add: reconcile_def fs_eval path_eval)
  have g2: "getLinkAndTarget example_ts_rule ''/ws'' ''/ws/pkg/m.proto'' ?fsb
      = (Inr (''/ws/pkg/m_ts.d.ts'', ''/ws/bazel-bin/pkg/m_ts.d.ts''), ?fsb)"
    by (simp add: getLinkAndTarget_ts_resolved [OF example_ts_kind] example_ts_paths)
  have r2: "reconcile ''/ws/pkg/m_ts.d.ts'' ''/ws/bazel-bin/pkg/m_ts.d.ts''
      (\<lparr>created = Suc 0, upToDate = 0\<rparr>, ?fsb)
      = (None, \<lparr>created = Suc (Suc 0), upToDate = 0\<rparr>, ?fs1)"
    by (simp add: reconcile_def fs_eval path_eval)
  have run1: "processWorkspace walk_one ''/ws'' ?fs0
      = (Inr \<lparr>created = 2, upToDate = 0\<rparr>, ?fs1)"
    by (simp add: processWorkspace_def collect_one build_paths st w p look
          processProtoFile_def g1 r1 g2 r2 del: Join.simps)
  have links: "computedLinks ?fs0 ''/ws'' [''/ws/pkg/m.proto'']
      = [''/ws/pkg/m/m.pb.go'', ''/ws/pkg/m_ts.d.ts'']"
    by (simp add: computedLinks_def linksOfFile_def build_paths st p look
          example_go_paths example_ts_paths del: Join.simps)
  have stable: "\<forall>pf \<in> set [''/ws/pkg/m.proto''].
      Stat ?fs0 (Join [Dir pf, ''BUILD'']) = None \<longrightarrow> Stat ?fs1 (Join [Dir pf, ''BUILD'']) = None"
    by (simp add: build_paths st del: Join.simps)
  from second_pass_idempotent [OF collect_one(1) collect_one(2) run1 stable]
  have "processWorkspace walk_one ''/ws'' ?fs1 = (Inr \<lparr>created = 0, upToDate = 2\<rparr>, ?fs1)"
    by (simp add: links)
  with run1 show ?thesis by simp
qed

text \<open>
  The condition on the descriptors in the statement above is needed.  Here the first pass
  skips a source file whose directory has no descriptor and then makes a directory at
  that descriptor's path, for the link of another file; the second pass finds the
  directory, cannot read it as a descriptor, and fails.
\<close>

lemma second_pass_fails_on_made_directory:
  "processWorkspace walk_packages ''/ws'' two_packages
     = (Inr \<lparr>created = 1, upToDate = 0\<rparr>,
        two_packages
          (''/ws/x/BUILD'' \<mapsto> Directory,
           ''/ws/x/BUILD/b.pb.go'' \<mapsto>
             SymbolicLink
               ''/ws/bazel-bin/y/m_go_/github.com/acme/proj/x/BUILD/b.pb.go''))
   \<and> processWorkspace walk_packages ''/ws''
       (two_packages
          (''/ws/x/BUILD'' \<mapsto> Directory,
           ''/ws/x/BUILD/b.pb.go'' \<mapsto>
             SymbolicLink
               ''/ws/bazel-bin/y/m_go_/github.com/acme/proj/x/BUILD/b.pb.go''))
     = (Inl (BuildFileError ''/ws/x/BUILD'' (CouldNotReadBuildFile ''/ws/x/BUILD'')),
        two_packages
          (''/ws/x/BUILD'' \<mapsto> Directory,
           ''/ws/x/BUILD/b.pb.go'' \<mapsto>
             SymbolicLink
               ''/ws/bazel-bin/y/m_go_/github.com/acme/proj/x/BUILD/b.pb.go''))"
proof -
  let ?t = "''/ws/bazel-bin/y/m_go_/github.com/acme/proj/x/BUILD/b.pb.go''"
  let ?fsa = "two_packages(''/ws/x/BUILD'' \<mapsto> Directory)"
  let ?fs1 = "?fsa(''/ws/x/BUILD/b.pb.go'' \<mapsto> SymbolicLink ?t)"
  let ?b = "\<lparr>protoFileToRule = [''b.proto'' \<mapsto> ''m''],
            protoRuleToLangProtoRules = [''m'' \<mapsto> [go_rule_named_dir]]\<rparr>"
  have paths: "Join [''/ws'', ''WORKSPACE''] = ''/ws/WORKSPACE''"
    "Join [Dir ''/ws/x/a.proto'', ''BUILD''] = ''/ws/x/BUILD''"
    "Join [Dir ''/ws/y/b.proto'', ''BUILD''] = ''/ws/y/BUILD''"
    "Base ''/ws/y/b.proto'' = ''b.proto''"
    by (simp_all add: path_eval)
  have collect: "collectProtoFiles (walk_packages two_packages ''/ws'') []
      = Inr [''/ws/x/a.proto'', ''/ws/y/b.proto'']"
    "collectProtoFiles (walk_packages ?fs1 ''/ws'') []
      = Inr [''/ws/x/a.proto'', ''/ws/y/b.proto'']"
    by (simp_all add: walk_packages_def walkOver_def two_packages_def HasSuffix_def sep_def)
  have stats: "Stat two_packages ''/ws/WORKSPACE'' = Some (RegularFile None)"
    "Stat two_packages ''/ws/x/BUILD'' = None"
    "Stat two_packages ''/ws/y/BUILD'' = Some (RegularFile (Some build_named_dir))"
    "Stat ?fs1 ''/ws/WORKSPACE'' = Some (RegularFile None)"
    "Stat ?fs1 ''/ws/x/BUILD'' = Some Directory"
    by (simp_all add: Stat_eval two_packages_def)
  have p: "parseBuildFile two_packages ''/ws/y/BUILD'' = Inr ?b"
    by (simp add: parseBuildFile_def ReadFile_def stats build_named_dir_def descr_eval
          go_rule_named_dir_def Let_def)
  have look: "getLangProtoRulesForProto ?b ''/ws/y/b.proto'' = Some [go_rule_named_dir]"
    by (simp add: getLangProtoRulesForProto_def paths)
  have k: "kind go_rule_named_dir = goProtoLibrary"
    by (simp add: go_rule_named_dir_def goProtoLibrary_def)
  have strip: "ReplaceAllLiteralString_empty (importPath go_rule_named_dir) = ''x/BUILD''"
    by (simp add: go_rule_named_dir_def go_eval sep_def)
  have rp: "goLinkDir go_rule_named_dir ''/ws'' = ''/ws/x/BUILD''"
    "resolvedLink go_rule_named_dir ''/ws'' ''/ws/y/b.proto'' = ''/ws/x/BUILD/b.pb.go''"
    "resolvedTarget go_rule_named_dir ''/ws'' ''/ws/y/b.proto'' = ?t"
    by (simp_all add: goLinkDir_def resolvedLink_def resolvedTarget_def goLinkFile_def
          strip k path_eval)
       (simp_all add: go_rule_named_dir_def path_eval)
  have mk: "MkdirAll ''/ws/x/BUILD'' two_packages = (True, ?fsa)"
    apply (subst MkdirAll.simps)
    apply (simp add: fs_eval path_eval two_packages_def)
    apply (subst MkdirAll.simps)
    apply (simp add: fs_eval path_eval)
    done
  have g: "getLinkAndTarget go_rule_named_dir ''/ws'' ''/ws/y/b.proto'' two_packages
      = (Inr (''/ws/x/BUILD/b.pb.go'', ?t), ?fsa)"
    by (simp add: getLinkAndTarget_go [OF k] strip rp mk)
       (simp add: go_rule_named_dir_def)
  have r: "reconcile ''/ws/x/BUILD/b.pb.go'' ?t (\<lparr>created = 0, upToDate = 0\<rparr>, ?fsa)
      = (None, \<lparr>created = Suc 0, upToDate = 0\<rparr>, ?fs1)"
    by (simp add: reconcile_def fs_eval path_eval two_packages_def)
  have run1: "processWorkspace walk_packages ''/ws'' two_packages
      = (Inr \<lparr>created = 1, upToDate = 0\<rparr>, ?fs1)"
    by (simp add: processWorkspace_def collect paths stats p look processProtoFile_def g r
          del: Join.simps)
  have read: "parseBuildFile ?fs1 ''/ws/x/BUILD'' = Inl (CouldNotReadBuildFile ''/ws/x/BUILD'')"
    by (simp add: parseBuildFile_def ReadFile_def stats)
  have run2: "processWorkspace walk_packages ''/ws'' ?fs1
      = (Inl (BuildFileError ''/ws/x/BUILD'' (CouldNotReadBuildFile ''/ws/x/BUILD'')), ?fs1)"
    by (simp add: processWorkspace_def collect paths stats read Let_def del: Join.simps)
  from run1 run2 show ?thesis by simp
qed

section \<open>Files without a generation rule\<close>

lemma processProtoFiles_file_all:
  assumes "Stat fs (Join [Dir pf, ''BUILD'']) \<noteq> None"
    and "parseBuildFile fs (Join [Dir pf, ''BUILD'']) = Inr b"
    and "\<forall>p b. cache p = Some b \<longrightarrow> parseBuildFile fs p = Inr b"
    and "getLangProtoRulesForProto b pf = Some rules"
    and "processLangRules root pf rules (res, fs) = (None, resb, fsb)"
  shows "\<exists>cache1. (\<forall>p b. cache1 p = Some b \<longrightarrow> parseBuildFile fs p = Inr b) \<and>
           (\<forall>pfs. processProtoFiles root (pf # pfs) cache (res, fs)
             = processProtoFiles root pfs cache1 (resb, fsb))"
proof (cases "cache (Join [Dir pf, ''BUILD''])")
  case None
  let ?c = "cache(Join [Dir pf, ''BUILD''] \<mapsto> b)"
  have "\<forall>p b. ?c p = Some b \<longrightarrow> parseBuildFile fs p = Inr b"
    using assms(2,3) by (auto simp del: Join.simps)
  moreover have "\<forall>pfs. processProtoFiles root (pf # pfs) cache (res, fs)
             = processProtoFiles root pfs ?c (resb, fsb)"
    using assms None by (auto simp add: Let_def processProtoFile_def simp del: Join.simps)
  ultimately show ?thesis by blast
next
  case (Some b1)
  with assms(2,3) have "b1 = b" by (auto simp del: Join.simps)
  with Some assms have "\<forall>pfs. processProtoFiles root (pf # pfs) cache (res, fs)
             = processProtoFiles root pfs cache (resb, fsb)"
    by (auto simp add: Let_def processProtoFile_def simp del: Join.simps)
  with assms(3) show ?thesis by blast
qed

lemma cache_grows:
  assumes "\<forall>p b. cache p = Some b \<longrightarrow> parseBuildFile fs p = Inr b" and "fs \<subseteq>\<^sub>m F"
  shows "\<forall>p b. cache p = Some b \<longrightarrow> parseBuildFile F p = Inr b"
proof (intro allI impI)
  fix p b assume "cache p = Some b"
  with assms(1) have "parseBuildFile fs p = Inr b" by blast
  with parseBuildFile_mono [OF assms(2) parseBuildFile_Inr_Stat [OF this]]
  show "parseBuildFile F p = Inr b" by simp
qed

lemma no_rule_stops_pass:
  assumes "pf \<in> set pfs"
    and "parseBuildFile fs (Join [Dir pf, ''BUILD'']) = Inr b"
    and "getLangProtoRulesForProto b pf = None"
    and "\<forall>p b. cache p = Some b \<longrightarrow> parseBuildFile fs p = Inr b"
  shows "processProtoFiles root pfs cache (res, fs) \<noteq> (None, res1, fs1)"
  using assms
proof (induction pfs arbitrary: cache res fs)
  case Nil
  then show ?case by simp
next
  case (Cons p ps)
  let ?bp = "Join [Dir pf, ''BUILD'']"
  note st = parseBuildFile_Inr_Stat [OF Cons.prems(2)]
  show ?case
  proof
    assume run: "processProtoFiles root (p # ps) cache (res, fs) = (None, res1, fs1)"
    from processProtoFiles_Cons_None [OF run Cons.prems(4)]
    consider (skip) "Stat fs (Join [Dir p, ''BUILD'']) = None"
        "processProtoFiles root ps cache (res, fs) = (None, res1, fs1)"
      | (found) b' rules resb fsb cache1 where
        "parseBuildFile fs (Join [Dir p, ''BUILD'']) = Inr b'"
        "getLangProtoRulesForProto b' p = Some rules"
        "processLangRules root p rules (res, fs) = (None, resb, fsb)"
        "\<forall>p b. cache1 p = Some b \<longrightarrow> parseBuildFile fs p = Inr b"
        "processProtoFiles root ps cache1 (resb, fsb) = (None, res1, fs1)"
      by (elim disjE exE conjE) blast+
    then show False
    proof cases
      case skip
      with st have "p \<noteq> pf" by auto
      with Cons.prems(1) have "pf \<in> set ps" by simp
      from Cons.IH [OF this Cons.prems(2,3,4)] skip(2) show False by simp
    next
      case found
      have "p \<noteq> pf"
      proof
        assume "p = pf"
        with found(1,2) Cons.prems(2,3) show False by simp
      qed
      with Cons.prems(1) have mem: "pf \<in> set ps" by simp
      from processLangRules_pass [OF found(3)] have le: "fs \<subseteq>\<^sub>m fsb" by simp
      from parseBuildFile_mono [OF le st] Cons.prems(2)
      have pb: "parseBuildFile fsb ?bp = Inr b" by simp
      from Cons.IH [OF mem pb Cons.prems(3) cache_grows [OF found(4) le]] found(5)
      show False by simp
    qed
  qed
qed

lemma no_rule_error_after:
  assumes "processProtoFiles root pre cache (res, fs) = (None, res1, fs1)"
    and "parseBuildFile fs (Join [Dir pf, ''BUILD'']) = Inr b"
    and "getLangProtoRulesForProto b pf = None"
    and "\<forall>p b. cache p = Some b \<longrightarrow> parseBuildFile fs p = Inr b"
  shows "processProtoFiles root (pre @ pf # post) cache (res, fs)
           = (Some (NoRuleForProto pf), res1, fs1)"
  using assms
proof (induction pre arbitrary: cache res fs)
  case Nil
  let ?bp = "Join [Dir pf, ''BUILD'']"
  from Nil.prems(1) have eq: "res1 = res" "fs1 = fs" by simp_all
  have "processProtoFiles root (pf # post) cache (res, fs) = (Some (NoRuleForProto pf), res, fs)"
  proof (rule processProtoFiles_head [where b = b])
    show "Stat fs ?bp \<noteq> None" by (rule parseBuildFile_Inr_Stat [OF Nil.prems(2)])
    show "cache ?bp = Some b \<or> (cache ?bp = None \<and> parseBuildFile fs ?bp = Inr b)"
      using Nil.prems(2,4) by (cases "cache ?bp") auto
    show "processProtoFile root pf b (res, fs) = (Some (NoRuleForProto pf), res, fs)"
      using Nil.prems(3) by (simp add: processProtoFile_def)
  qed
  with eq show ?case by simp
next
  case (Cons p ps)
  let ?bp = "Join [Dir pf, ''BUILD'']"
  note st = parseBuildFile_Inr_Stat [OF Cons.prems(2)]
  from processProtoFiles_Cons_None [OF Cons.prems(1,4)]
  consider (skip) "Stat fs (Join [Dir p, ''BUILD'']) = None"
      "processProtoFiles root ps cache (res, fs) = (None, res1, fs1)"
    | (found) b' rules resb fsb where
      "Stat fs (Join [Dir p, ''BUILD'']) \<noteq> None"
      "parseBuildFile fs (Join [Dir p, ''BUILD'']) = Inr b'"
      "getLangProtoRulesForProto b' p = Some rules"
      "processLangRules root p rules (res, fs) = (None, resb, fsb)"
    by (elim disjE exE conjE) blast+
  then show ?case
  proof cases
    case skip
    from Cons.IH [OF skip(2) Cons.prems(2,3,4)] skip(1) show ?thesis
      by (simp add: processProtoFiles_skip del: processProtoFiles.simps)
  next
    case found
    from processProtoFiles_file_all [OF found(1,2) Cons.prems(4) found(3,4)]
    obtain cache1 where c1: "\<forall>p b. cache1 p = Some b \<longrightarrow> parseBuildFile fs p = Inr b"
      and step: "\<And>pfs. processProtoFiles root (p # pfs) cache (res, fs)
             = processProtoFiles root pfs cache1 (resb, fsb)"
      by blast
    from step [of ps] Cons.prems(1)
    have run: "processProtoFiles root ps cache1 (resb, fsb) = (None, res1, fs1)" by simp
    from processLangRules_pass [OF found(4)] have le: "fs \<subseteq>\<^sub>m fsb" by simp
    from parseBuildFile_mono [OF le st] Cons.prems(2)
    have pb: "parseBuildFile fsb ?bp = Inr b" by simp
    from Cons.IH [OF run pb Cons.prems(3) cache_grows [OF c1 le]] step [of "ps @ pf # post"]
    show ?thesis by simp
  qed
qed


text \<open>
  C7.  For a parsed descriptor, the lookup of the generation rules of a source file
  gives the same not-found answer when no \<^verbatim>\<open>proto_library\<close> rule lists the file's
  base name and when a rule lists it but no \<^verbatim>\<open>go_proto_library\<close> or
  \<^verbatim>\<open>ts_proto_library\<close> rule refers to that rule; in both cases
  \<^verbatim>\<open>processProtoFile\<close> returns the no-rule error for the file.  When such a file
  is anywhere among the files the walk finds, \<^verbatim>\<open>processWorkspace\<close> returns an
  error for the workspace root and no counters: the file is never passed over.  The
  error is the no-rule error of this file when the files before it are processed
  without error, and the file system is then as those files left it.
\<close>

theorem no_generation_rule_is_error:
  assumes "ReadFile fs buildFilePath = Some (Some buildFile)"
    and "parseBuildFile fs buildFilePath = Inr b"
    and "(\<forall>r \<in> set (Rules buildFile ''proto_library'').
            \<forall>srcs. Attr r ''srcs'' = Some (ListExpr (map StringExpr srcs))
              \<longrightarrow> Base protoFile \<notin> set srcs)
         \<or> (\<exists>d. protoFileToRule b (Base protoFile) = Some d \<and>
               (\<forall>r \<in> set buildFile.
                  ruleKind r = goProtoLibrary \<or> ruleKind r = tsProtoLibrary \<longrightarrow>
                    drop 1 (AttrString r ''proto'') \<noteq> d))"
    and "buildFilePath = Join [Dir protoFile, ''BUILD'']"
    and "Stat fs (Join [workspaceRoot, ''WORKSPACE'']) \<noteq> None"
    and "collectProtoFiles (walk fs workspaceRoot) [] = Inr protoFiles"
    and "protoFile \<in> set protoFiles"
  shows "getLangProtoRulesForProto b protoFile = None
       \<and> processProtoFile workspaceRoot protoFile b st = (Some (NoRuleForProto protoFile), st)
       \<and> (\<exists>e fs1. processWorkspace walk workspaceRoot fs = (Inl e, fs1))
       \<and> (\<forall>pre post res1 fs1.
            protoFiles = pre @ protoFile # post \<and>
            processProtoFiles workspaceRoot pre Map.empty (\<lparr>created = 0, upToDate = 0\<rparr>, fs)
              = (None, res1, fs1)
            \<longrightarrow> processWorkspace walk workspaceRoot fs = (Inl (NoRuleForProto protoFile), fs1))"
proof -
  note regs = parseBuildFile_Inr [OF assms(1,2)]
  have none: "getLangProtoRulesForProto b protoFile = None"
    using assms(3)
  proof
    assume a: "\<forall>r \<in> set (Rules buildFile ''proto_library'').
            \<forall>srcs. Attr r ''srcs'' = Some (ListExpr (map StringExpr srcs))
              \<longrightarrow> Base protoFile \<notin> set srcs"
    from registerProtoRules_dom [OF regs(1)] a have "Base protoFile \<notin> dom (protoFileToRule b)"
      by (auto simp: AttrStrings_Some_iff)
    then have "protoFileToRule b (Base protoFile) = None" by (simp add: domIff)
    then show ?thesis by (simp add: getLangProtoRulesForProto_def)
  next
    assume "\<exists>d. protoFileToRule b (Base protoFile) = Some d \<and>
               (\<forall>r \<in> set buildFile.
                  ruleKind r = goProtoLibrary \<or> ruleKind r = tsProtoLibrary \<longrightarrow>
                    drop 1 (AttrString r ''proto'') \<noteq> d)"
    then obtain d where d: "protoFileToRule b (Base protoFile) = Some d"
      and no: "\<forall>r \<in> set buildFile.
                  ruleKind r = goProtoLibrary \<or> ruleKind r = tsProtoLibrary \<longrightarrow>
                    drop 1 (AttrString r ''proto'') \<noteq> d" by blast
    from registerLangRules_dom [OF regs(2)] no have "d \<notin> dom (protoRuleToLangProtoRules b)"
      by (auto simp: Rules_all)
    then have "protoRuleToLangProtoRules b d = None" by (simp add: domIff)
    with d show ?thesis by (simp add: getLangProtoRulesForProto_def)
  qed
  then have pf: "processProtoFile workspaceRoot protoFile b st
      = (Some (NoRuleForProto protoFile), st)"
    by (simp add: processProtoFile_def)
  have parsed: "parseBuildFile fs (Join [Dir protoFile, ''BUILD'']) = Inr b"
    using assms(2,4) by simp
  have c0: "\<forall>p b. Map.empty p = Some b \<longrightarrow> parseBuildFile fs p = Inr b" by simp
  have ws: "processWorkspace walk workspaceRoot fs =
      (case processProtoFiles workspaceRoot protoFiles Map.empty
              (\<lparr>created = 0, upToDate = 0\<rparr>, fs) of
         (Some e, res, fs1) \<Rightarrow> (Inl e, fs1)
       | (None, res, fs1) \<Rightarrow> (Inr res, fs1))"
    using assms(5,6) by (auto simp add: processWorkspace_def simp del: Join.simps)
  have fails: "\<exists>e fs1. processWorkspace walk workspaceRoot fs = (Inl e, fs1)"
  proof -
    obtain x res1 fs1 where run: "processProtoFiles workspaceRoot protoFiles Map.empty
        (\<lparr>created = 0, upToDate = 0\<rparr>, fs) = (x, res1, fs1)"
      by (cases "processProtoFiles workspaceRoot protoFiles Map.empty
        (\<lparr>created = 0, upToDate = 0\<rparr>, fs)") auto
    with no_rule_stops_pass [OF assms(7) parsed none c0] obtain e where "x = Some e"
      by (cases x) auto
    with run ws show ?thesis by simp
  qed
  have first: "processWorkspace walk workspaceRoot fs = (Inl (NoRuleForProto protoFile), fs1)"
    if "protoFiles = pre @ protoFile # post"
      and "processProtoFiles workspaceRoot pre Map.empty (\<lparr>created = 0, upToDate = 0\<rparr>, fs)
              = (None, res1, fs1)" for pre post res1 fs1
    using no_rule_error_after [OF that(2) parsed none c0, of post] that(1) ws by simp
  from none pf fails first show ?thesis by blast
qed

lemma example_ts_paths_a:
  "resolvedLink example_ts_rule ''/ws'' ''/ws/pkg/a.proto'' = ''/ws/pkg/m_ts.d.ts''"
  "resolvedTarget example_ts_rule ''/ws'' ''/ws/pkg/a.proto'' = ''/ws/bazel-bin/pkg/m_ts.d.ts''"
  by (simp_all add: example_ts_rule_def ts_paths_two)

lemma first_file_linked:
  assumes p: "parseBuildFile (workspace_two bf) ''/ws/pkg/BUILD'' = Inr b"
    and a: "protoFileToRule b ''a.proto'' = Some ''m''"
    and m: "protoRuleToLangProtoRules b ''m'' = Some [example_ts_rule]"
  shows "processProtoFiles ''/ws'' [''/ws/pkg/a.proto''] Map.empty
           (\<lparr>created = 0, upToDate = 0\<rparr>, workspace_two bf)
         = (None, \<lparr>created = Suc 0, upToDate = 0\<rparr>,
            (workspace_two bf)
              (''/ws/pkg/m_ts.d.ts'' \<mapsto> SymbolicLink ''/ws/bazel-bin/pkg/m_ts.d.ts''))"
proof -
  have st: "Stat (workspace_two bf) ''/ws/pkg/BUILD'' = Some (RegularFile (Some bf))"
    by (simp add: Stat_eval workspace_two_def)
  have base: "Base ''/ws/pkg/a.proto'' = ''a.proto''" by (simp add: path_eval)
  have r1: "reconcile ''/ws/pkg/m_ts.d.ts'' ''/ws/bazel-bin/pkg/m_ts.d.ts''
      (\<lparr>created = 0, upToDate = 0\<rparr>, workspace_two bf)
      = (None, \<lparr>created = Suc 0, upToDate = 0\<rparr>,
         (workspace_two bf)
           (''/ws/pkg/m_ts.d.ts'' \<mapsto> SymbolicLink ''/ws/bazel-bin/pkg/m_ts.d.ts''))"
    by (simp add: reconcile_def fs_eval path_eval)
  show ?thesis
    by (simp add: build_paths st p processProtoFile_def getLangProtoRulesForProto_def base a m
          getLinkAndTarget_ts_resolved [OF example_ts_kind] example_ts_paths_a r1
          del: Join.simps)
qed

theorem no_generation_rule_is_error_witness:
  "processWorkspace walk_two ''/ws'' (workspace_two undeclared_source)
   = (Inl (NoRuleForProto ''/ws/pkg/b.proto''),
      (workspace_two undeclared_source)
        (''/ws/pkg/m_ts.d.ts'' \<mapsto> SymbolicLink ''/ws/bazel-bin/pkg/m_ts.d.ts''))
   \<and> processWorkspace walk_two ''/ws'' (workspace_two unconsumed_source)
   = (Inl (NoRuleForProto ''/ws/pkg/b.proto''),
      (workspace_two unconsumed_source)
        (''/ws/pkg/m_ts.d.ts'' \<mapsto> SymbolicLink ''/ws/bazel-bin/pkg/m_ts.d.ts''))"
proof -
  let ?b1 = "\<lparr>protoFileToRule = [''a.proto'' \<mapsto> ''m''],
      protoRuleToLangProtoRules = [''m'' \<mapsto> [example_ts_rule]]\<rparr>"
  let ?b2 = "\<lparr>protoFileToRule = [''a.proto'' \<mapsto> ''m'', ''b.proto'' \<mapsto> ''n''],
      protoRuleToLangProtoRules = [''m'' \<mapsto> [example_ts_rule]]\<rparr>"
  have p1: "parseBuildFile (workspace_two undeclared_source) ''/ws/pkg/BUILD'' = Inr ?b1"
    by (simp add: parseBuildFile_read [OF ReadFile_workspace_two] undeclared_source_def
          descr_eval example_ts_rule_def)
  have p2: "parseBuildFile (workspace_two unconsumed_source) ''/ws/pkg/BUILD'' = Inr ?b2"
    by (simp add: parseBuildFile_read [OF ReadFile_workspace_two] unconsumed_source_def
          descr_eval example_ts_rule_def)
  have h1: "(\<forall>r \<in> set (Rules undeclared_source ''proto_library'').
            \<forall>srcs. Attr r ''srcs'' = Some (ListExpr (map StringExpr srcs))
              \<longrightarrow> Base ''/ws/pkg/b.proto'' \<notin> set srcs)
         \<or> (\<exists>d. protoFileToRule ?b1 (Base ''/ws/pkg/b.proto'') = Some d \<and>
               (\<forall>r \<in> set undeclared_source.
                  ruleKind r = goProtoLibrary \<or> ruleKind r = tsProtoLibrary \<longrightarrow>
                    drop 1 (AttrString r ''proto'') \<noteq> d))"
    by (rule disjI1) (auto simp add: undeclared_source_def descr_eval path_eval)
  have h2: "(\<forall>r \<in> set (Rules unconsumed_source ''proto_library'').
            \<forall>srcs. Attr r ''srcs'' = Some (ListExpr (map StringExpr srcs))
              \<longrightarrow> Base ''/ws/pkg/b.proto'' \<notin> set srcs)
         \<or> (\<exists>d. protoFileToRule ?b2 (Base ''/ws/pkg/b.proto'') = Some d \<and>
               (\<forall>r \<in> set unconsumed_source.
                  ruleKind r = goProtoLibrary \<or> ruleKind r = tsProtoLibrary \<longrightarrow>
                    drop 1 (AttrString r ''proto'') \<noteq> d))"
    by (rule disjI2) (simp add: unconsumed_source_def descr_eval path_eval)
  have w: "\<And>bf. Stat (workspace_two bf) (Join [''/ws'', ''WORKSPACE'']) \<noteq> None"
    by (simp add: build_paths Stat_workspace_two del: Join.simps)
  have files: "[''/ws/pkg/a.proto'', ''/ws/pkg/b.proto''] = [''/ws/pkg/a.proto''] @ ''/ws/pkg/b.proto'' # []"
    by simp
  note t1 = no_generation_rule_is_error [where walk = walk_two and workspaceRoot = "''/ws''"
      and fs = "workspace_two undeclared_source" and protoFile = "''/ws/pkg/b.proto''"
      and protoFiles = "[''/ws/pkg/a.proto'', ''/ws/pkg/b.proto'']",
      OF ReadFile_workspace_two p1 h1 build_paths(2) [symmetric] w collect_two(1)]
  note t2 = no_generation_rule_is_error [where walk = walk_two and workspaceRoot = "''/ws''"
      and fs = "workspace_two unconsumed_source" and protoFile = "''/ws/pkg/b.proto''"
      and protoFiles = "[''/ws/pkg/a.proto'', ''/ws/pkg/b.proto'']",
      OF ReadFile_workspace_two p2 h2 build_paths(2) [symmetric] w collect_two(1)]
  have 1: "processWorkspace walk_two ''/ws'' (workspace_two undeclared_source)
     = (Inl (NoRuleForProto ''/ws/pkg/b.proto''),
        (workspace_two undeclared_source)
          (''/ws/pkg/m_ts.d.ts'' \<mapsto> SymbolicLink ''/ws/bazel-bin/pkg/m_ts.d.ts''))"
    using t1 [THEN conjunct2, THEN conjunct2, THEN conjunct2, rule_format,
        OF _ conjI [OF files first_file_linked [OF p1]]]
    by simp
  have 2: "processWorkspace walk_two ''/ws'' (workspace_two unconsumed_source)
     = (Inl (NoRuleForProto ''/ws/pkg/b.proto''),
        (workspace_two unconsumed_source)
          (''/ws/pkg/m_ts.d.ts'' \<mapsto> SymbolicLink ''/ws/bazel-bin/pkg/m_ts.d.ts''))"
    using t2 [THEN conjunct2, THEN conjunct2, THEN conjunct2, rule_format,
        OF _ conjI [OF files first_file_linked [OF p2]]]
    by simp
  from 1 2 show ?thesis by simp
qed

end
